theory Spec2Isabelle
  imports Main "HOL-Library.Sublist"
begin

section \<open>The JavaScript values the scheduler works with\<close>

subsection \<open>Time values\<close>

text \<open>
  A time value is a number of milliseconds since 1970-01-01T00:00. The model takes the
  local time zone of the process to be UTC, so that the local fields the source reads
  (\<open>getDay\<close>, \<open>getHours\<close>, \<open>getMinutes\<close>, \<open>getFullYear\<close>, \<open>getMonth\<close>, \<open>getDate\<close>) and
  sets (\<open>setDate\<close>, \<open>setHours\<close>) are fields of the time value itself; with another
  fixed offset the limits of the range of \<open>Date\<close> below move by that offset. The
  functions follow the ECMAScript abstract operations \<open>Day\<close>, \<open>TimeWithinDay\<close>,
  \<open>WeekDay\<close>, \<open>HourFromTime\<close>, \<open>MinFromTime\<close>, \<open>YearFromTime\<close>, \<open>MonthFromTime\<close> and
  \<open>DateFromTime\<close>.
\<close>

definition msPerDay :: int where
  "msPerDay = 86400000"

definition Day :: "int \<Rightarrow> int" where
  "Day t = t div msPerDay"

definition TimeWithinDay :: "int \<Rightarrow> int" where
  "TimeWithinDay t = t mod msPerDay"

definition WeekDay :: "int \<Rightarrow> int" where
  "WeekDay t = (Day t + 4) mod 7"

definition HourFromTime :: "int \<Rightarrow> int" where
  "HourFromTime t = TimeWithinDay t div 3600000"

definition MinFromTime :: "int \<Rightarrow> int" where
  "MinFromTime t = (TimeWithinDay t div 60000) mod 60"

definition isLeapYear :: "int \<Rightarrow> bool" where
  "isLeapYear y = (if y mod 400 = 0 then True else if y mod 100 = 0 then False else y mod 4 = 0)"

definition daysInYear :: "int \<Rightarrow> int" where
  "daysInYear y = (if isLeapYear y then 366 else 365)"

text \<open>
  \<open>yearAndDay y n\<close>: the year holding the day that lies \<open>n\<close> days after January 1st of
  year \<open>y\<close>, and that day's number within its year (0 for January 1st).
\<close>

function yearAndDay :: "int \<Rightarrow> int \<Rightarrow> int \<times> int" where
  "yearAndDay y n =
     (if n < 0 then yearAndDay (y - 1) (n + daysInYear (y - 1))
      else if daysInYear y \<le> n then yearAndDay (y + 1) (n - daysInYear y)
      else (y, n))"
  by pat_completeness auto
termination
  by (relation "measure (\<lambda>(y, n). if n < 0 then nat (- n) + 366 else nat n)")
     (auto simp: daysInYear_def split: if_splits)

declare yearAndDay.simps [simp del]

definition daysInMonth :: "bool \<Rightarrow> nat \<Rightarrow> int" where
  "daysInMonth leap m =
     (if m = 1 then (if leap then 29 else 28)
      else if m = 3 \<or> m = 5 \<or> m = 8 \<or> m = 10 then 30
      else 31)"

text \<open>
  \<open>monthAndDate leap m r\<close>: the month (0 for January) and the day of the month (from 1)
  of the day that lies \<open>r\<close> days after the first of month \<open>m\<close>.
\<close>

function monthAndDate :: "bool \<Rightarrow> nat \<Rightarrow> int \<Rightarrow> nat \<times> int" where
  "monthAndDate leap m r =
     (if m < 11 \<and> daysInMonth leap m \<le> r then monthAndDate leap (Suc m) (r - daysInMonth leap m)
      else (m, r + 1))"
  by pat_completeness auto
termination
  by (relation "measure (\<lambda>(leap, m, r). 11 - m)") auto

declare monthAndDate.simps [simp del]

definition YearFromTime :: "int \<Rightarrow> int" where
  "YearFromTime t = fst (yearAndDay 1970 (Day t))"

definition MonthFromTime :: "int \<Rightarrow> int" where
  "MonthFromTime t =
     (let (y, r) = yearAndDay 1970 (Day t) in int (fst (monthAndDate (isLeapYear y) 0 r)))"

definition DateFromTime :: "int \<Rightarrow> int" where
  "DateFromTime t =
     (let (y, r) = yearAndDay 1970 (Day t) in snd (monthAndDate (isLeapYear y) 0 r))"

subsection \<open>Date\<close>

text \<open>
  A \<open>Date\<close> object holds a time value of at most 8,640,000,000,000,000 ms in absolute
  value (100,000,000 days on either side of 1970-01-01), or NaN: it is then an Invalid
  Date. \<open>TimeClip\<close> is the step that every operation making or changing a \<open>Date\<close> ends
  with: a time value out of the range gives the Invalid Date.

  A number that can be NaN is an \<open>int option\<close>, \<open>None\<close> for NaN: every field of an Invalid
  Date is NaN. The numbers of the source that cannot be NaN are plain integers; they are
  all far below \<open>2 ^ 53\<close> in absolute value, where JavaScript numbers are exact.
\<close>

datatype Date = Date int | Invalid_Date

definition maxTime :: int where
  "maxTime = 8640000000000000"

definition TimeClip :: "int \<Rightarrow> Date" where
  "TimeClip t = (if \<bar>t\<bar> \<le> maxTime then Date t else Invalid_Date)"

definition getTime :: "Date \<Rightarrow> int option" where
  "getTime date = (case date of Date t \<Rightarrow> Some t | Invalid_Date \<Rightarrow> None)"

definition getDay :: "Date \<Rightarrow> int option" where
  "getDay date = (case date of Date t \<Rightarrow> Some (WeekDay t) | Invalid_Date \<Rightarrow> None)"

definition getHours :: "Date \<Rightarrow> int option" where
  "getHours date = (case date of Date t \<Rightarrow> Some (HourFromTime t) | Invalid_Date \<Rightarrow> None)"

definition getMinutes :: "Date \<Rightarrow> int option" where
  "getMinutes date = (case date of Date t \<Rightarrow> Some (MinFromTime t) | Invalid_Date \<Rightarrow> None)"

definition getFullYear :: "Date \<Rightarrow> int option" where
  "getFullYear date = (case date of Date t \<Rightarrow> Some (YearFromTime t) | Invalid_Date \<Rightarrow> None)"

definition getMonth :: "Date \<Rightarrow> int option" where
  "getMonth date = (case date of Date t \<Rightarrow> Some (MonthFromTime t) | Invalid_Date \<Rightarrow> None)"

definition getDate :: "Date \<Rightarrow> int option" where
  "getDate date = (case date of Date t \<Rightarrow> Some (DateFromTime t) | Invalid_Date \<Rightarrow> None)"

text \<open>\<open>new Date(value)\<close> for a number.\<close>

definition Date_of_number :: "int option \<Rightarrow> Date" where
  "Date_of_number value = (case value of None \<Rightarrow> Invalid_Date | Some t \<Rightarrow> TimeClip t)"

text \<open>
  \<open>date.setDate(n)\<close> keeps the year, the month and the time within the day and moves to
  day \<open>n\<close> of that month, running over into the neighbouring months when \<open>n\<close> is out of
  range: \<open>n - getDate\<close> days away from where the date stands.
  \<open>date.setHours(h, m, s, ms)\<close> keeps the day and replaces the time within it. Both
  leave an Invalid Date invalid, and both make the date invalid when the new time value
  is out of the range.
\<close>

definition setDate :: "Date \<Rightarrow> int option \<Rightarrow> Date" where
  "setDate date n =
     (case (date, n) of
        (Date t, Some n) \<Rightarrow> TimeClip (t + (n - DateFromTime t) * msPerDay)
      | _ \<Rightarrow> Invalid_Date)"

definition setHours :: "Date \<Rightarrow> int \<Rightarrow> int \<Rightarrow> int \<Rightarrow> int \<Rightarrow> Date" where
  "setHours date h m s ms =
     (case date of
        Date t \<Rightarrow> TimeClip (Day t * msPerDay + ((h * 60 + m) * 60 + s) * 1000 + ms)
      | Invalid_Date \<Rightarrow> Invalid_Date)"

subsection \<open>Arithmetic and comparison with NaN\<close>

text \<open>
  \<open>a + b\<close> and \<open>a * b\<close> are NaN when an operand is; \<open>a < b\<close> and \<open>a >= b\<close> are false
  then. \<open>array.includes(x)\<close> on an array of integers is false for NaN.
\<close>

definition number_plus :: "int option \<Rightarrow> int option \<Rightarrow> int option" where
  "number_plus a b = (case (a, b) of (Some x, Some y) \<Rightarrow> Some (x + y) | _ \<Rightarrow> None)"

definition number_minus :: "int option \<Rightarrow> int option \<Rightarrow> int option" where
  "number_minus a b = (case (a, b) of (Some x, Some y) \<Rightarrow> Some (x - y) | _ \<Rightarrow> None)"

definition number_times :: "int option \<Rightarrow> int option \<Rightarrow> int option" where
  "number_times a b = (case (a, b) of (Some x, Some y) \<Rightarrow> Some (x * y) | _ \<Rightarrow> None)"

definition number_less :: "int option \<Rightarrow> int option \<Rightarrow> bool" where
  "number_less a b = (case (a, b) of (Some x, Some y) \<Rightarrow> x < y | _ \<Rightarrow> False)"

definition number_greater_eq :: "int option \<Rightarrow> int option \<Rightarrow> bool" where
  "number_greater_eq a b = (case (a, b) of (Some x, Some y) \<Rightarrow> x \<ge> y | _ \<Rightarrow> False)"

definition Array_includes :: "int list \<Rightarrow> int option \<Rightarrow> bool" where
  "Array_includes xs x = (case x of None \<Rightarrow> False | Some n \<Rightarrow> n \<in> set xs)"

subsection \<open>Strings\<close>

definition digit_char :: "nat \<Rightarrow> char" where
  "digit_char d = ''0123456789'' ! d"

text \<open>
  \<open>String(n)\<close> for a number that is NaN or an integer below \<open>10 ^ 21\<close> in absolute value:
  \<open>NaN\<close>, or the decimal digits with a minus sign when negative. (From \<open>10 ^ 21\<close> on
  JavaScript writes an exponent.) The source converts the year, the month and the day of
  a \<open>Date\<close>, which are NaN or below 300,000 in absolute value.
\<close>

function digits :: "nat \<Rightarrow> string" where
  "digits n = (if n < 10 then [digit_char n] else digits (n div 10) @ [digit_char (n mod 10)])"
  by pat_completeness auto
termination
  by (relation "measure id") auto

declare digits.simps [simp del]

definition String_number :: "int option \<Rightarrow> string" where
  "String_number n =
     (case n of
        None \<Rightarrow> ''NaN''
      | Some i \<Rightarrow> if i < 0 then CHR ''-'' # digits (nat (- i)) else digits (nat i))"

definition padStart :: "string \<Rightarrow> nat \<Rightarrow> char \<Rightarrow> string" where
  "padStart s n c = replicate (n - length s) c @ s"

text \<open>\<open>s.split(":")\<close>: the pieces of \<open>s\<close> between the separators.\<close>

fun split :: "string \<Rightarrow> char \<Rightarrow> string list" where
  "split [] c = [[]]"
| "split (x # xs) c =
     (if x = c then [] # split xs c
      else (case split xs c of [] \<Rightarrow> [[x]] | p # ps \<Rightarrow> (x # p) # ps))"

definition is_digit :: "char \<Rightarrow> bool" where
  "is_digit c = (c \<in> set ''0123456789'')"

definition digit_val :: "char \<Rightarrow> int" where
  "digit_val c = int (length (takeWhile (\<lambda>d. d \<noteq> c) ''0123456789''))"

text \<open>
  \<open>Number(s)\<close> on a string of decimal digits. JavaScript reads more strings as numbers
  (surrounding blanks, a sign, a fraction, an exponent, the empty string as 0) and gives
  NaN for the rest; a time of day written \<open>HH:MM\<close> has none of these, and the model
  gives \<open>None\<close> for every string that is not plain digits: here \<open>None\<close> stands for a
  string the model does not read, and the functions that meet it give no result.
\<close>

definition Number :: "string \<Rightarrow> int option" where
  "Number s =
     (if s \<noteq> [] \<and> list_all is_digit s then Some (foldl (\<lambda>a c. 10 * a + digit_val c) 0 s)
      else None)"

text \<open>
  \<open>const [hour, min] = time.split(":").map(Number)\<close>: the first two pieces, as numbers.
\<close>

definition hourAndMinute :: "string \<Rightarrow> (int \<times> int) option" where
  "hourAndMinute time =
     (case map Number (split time (CHR '':'')) of
        Some h # Some m # rest \<Rightarrow> Some (h, m)
      | _ \<Rightarrow> None)"

section \<open>market-hours.ts\<close>

record MarketHoursConfig =
  openTime :: string
  closeTime :: string
  openDays :: "int list"
  holidays :: "string list option"
  graceAfterOpen :: "int option"
  graceBeforeClose :: "int option"

record MarketStatus =
  isOpen :: bool
  currentTime :: Date
  closedReason :: "string option"
  nextOpenTime :: "Date option"
  nextCloseTime :: "Date option"

text \<open>\<open>days[day]\<close>, in a template literal: \<open>undefined\<close> when \<open>day\<close> is no index of the array.\<close>

definition getDayName :: "int option \<Rightarrow> string" where
  "getDayName day =
     (case day of
        None \<Rightarrow> ''undefined''
      | Some d \<Rightarrow>
          if 0 \<le> d \<and> d < 7
          then [''Sunday'', ''Monday'', ''Tuesday'', ''Wednesday'', ''Thursday'', ''Friday'',
                ''Saturday''] ! nat d
          else ''undefined'')"

definition formatDate :: "Date \<Rightarrow> string" where
  "formatDate date =
     (let year = getFullYear date;
          month = padStart (String_number (number_plus (getMonth date) (Some 1))) 2 (CHR ''0'');
          day = padStart (String_number (getDate date)) 2 (CHR ''0'')
      in String_number year @ ''-'' @ month @ ''-'' @ day)"

text \<open>\<open>config.holidays?.includes(dateStr)\<close>: false when the config has no holiday list.\<close>

definition isHoliday :: "MarketHoursConfig \<Rightarrow> string \<Rightarrow> bool" where
  "isHoliday config dateStr =
     (case holidays config of None \<Rightarrow> False | Some hs \<Rightarrow> dateStr \<in> set hs)"

text \<open>
  The two loops of \<open>getNextOpenTime\<close>. Neither has a bound in the source:
  \<open>while (!config.openDays.includes(next.getDay())) next.setDate(next.getDate() + 1)\<close>
  never ends when \<open>openDays\<close> holds no weekday number, and it never ends once \<open>next\<close> has
  left the range of \<open>Date\<close>: \<open>getDay\<close> of the Invalid Date is NaN, and \<open>setDate\<close> leaves
  it invalid. So both are partial functions, and \<open>None\<close> stands for a loop that does not
  end.
\<close>

partial_function (option) findOpenDay :: "MarketHoursConfig \<Rightarrow> Date \<Rightarrow> Date option" where
  "findOpenDay config next =
     (if \<not> Array_includes (openDays config) (getDay next)
      then findOpenDay config (setDate next (number_plus (getDate next) (Some 1)))
      else Some next)"

partial_function (option) skipHolidays :: "MarketHoursConfig \<Rightarrow> Date \<Rightarrow> Date option" where
  "skipHolidays config next =
     (if isHoliday config (formatDate next)
      then Option.bind (findOpenDay config (setDate next (number_plus (getDate next) (Some 1))))
             (skipHolidays config)
      else Some next)"

declare findOpenDay.simps [code]
declare skipHolidays.simps [code]

text \<open>
  The functions of the module give \<open>None\<close> when they return nothing: when a loop above
  does not end, and when \<open>openTime\<close> or \<open>closeTime\<close> is not of the form the model's
  \<open>Number\<close> reads (digits, a colon, digits).
\<close>

definition getNextOpenTime :: "MarketHoursConfig \<Rightarrow> Date \<Rightarrow> Date option" where
  "getNextOpenTime config from =
     (case hourAndMinute (openTime config) of
        None \<Rightarrow> None
      | Some (openHour, openMin) \<Rightarrow>
          (let next = from;
               next = setDate next (number_plus (getDate next) (Some 1));
               next = setHours next openHour openMin 0 0
           in Option.bind (findOpenDay config next) (skipHolidays config)))"

definition getNextCloseTime :: "MarketHoursConfig \<Rightarrow> Date \<Rightarrow> Date option" where
  "getNextCloseTime config from =
     (case hourAndMinute (closeTime config) of
        None \<Rightarrow> None
      | Some (closeHour, closeMin) \<Rightarrow> Some (setHours from closeHour closeMin 0 0))"

definition closedStatus :: "Date \<Rightarrow> string \<Rightarrow> Date \<Rightarrow> MarketStatus" where
  "closedStatus now reason next =
     \<lparr>isOpen = False, currentTime = now, closedReason = Some reason,
      nextOpenTime = Some next, nextCloseTime = None\<rparr>"

definition isMarketOpen :: "MarketHoursConfig \<Rightarrow> Date \<Rightarrow> MarketStatus option" where
  "isMarketOpen config now =
     (let dayOfWeek = getDay now in
      if \<not> Array_includes (openDays config) dayOfWeek
      then map_option (closedStatus now (''Market closed on '' @ getDayName dayOfWeek))
             (getNextOpenTime config now)
      else
        let dateStr = formatDate now in
        if isHoliday config dateStr
        then map_option (closedStatus now (''Market closed for holiday ('' @ dateStr @ '')''))
               (getNextOpenTime config now)
        else
          let currentMinutes = number_plus (number_times (getHours now) (Some 60)) (getMinutes now) in
          case (hourAndMinute (openTime config), hourAndMinute (closeTime config)) of
            (Some (openHour, openMin), Some (closeHour, closeMin)) \<Rightarrow>
              (let openMinutes = openHour * 60 + openMin;
                   closeMinutes = closeHour * 60 + closeMin;
                   graceAfter = (case graceAfterOpen config of None \<Rightarrow> 0 | Some g \<Rightarrow> g);
                   graceBefore = (case graceBeforeClose config of None \<Rightarrow> 0 | Some g \<Rightarrow> g);
                   effectiveOpenMinutes = openMinutes + graceAfter;
                   effectiveCloseMinutes = closeMinutes - graceBefore
               in if number_less currentMinutes (Some effectiveOpenMinutes)
                  then map_option
                         (closedStatus now
                            (''Before market open (opens at '' @ openTime config @ '')''))
                         (getNextOpenTime config now)
                  else if number_greater_eq currentMinutes (Some effectiveCloseMinutes)
                  then map_option
                         (closedStatus now
                            (''After market close (closed at '' @ closeTime config @ '')''))
                         (getNextOpenTime config now)
                  else map_option
                         (\<lambda>close. \<lparr>isOpen = True, currentTime = now, closedReason = None,
                                    nextOpenTime = None, nextCloseTime = Some close\<rparr>)
                         (getNextCloseTime config now))
          | _ \<Rightarrow> None)"

definition getUSMarketHoursConfig :: MarketHoursConfig where
  "getUSMarketHoursConfig =
     \<lparr>openTime = ''09:30'', closeTime = ''16:00'', openDays = [1, 2, 3, 4, 5],
      holidays = Some [''2025-01-01'', ''2025-01-20'', ''2025-02-17'', ''2025-04-18'',
                       ''2025-05-26'', ''2025-07-04'', ''2025-09-01'', ''2025-11-27'',
                       ''2025-12-25''],
      graceAfterOpen = Some 15, graceBeforeClose = Some 15\<rparr>"

text \<open>
  \<open>minutesUntilMarketOpen\<close> and \<open>minutesUntilMarketClose\<close>. The result is a number of
  minutes, \<open>Infinity\<close> or NaN; \<open>Math.floor\<close> of the quotient of two integers is \<open>div\<close>.
\<close>

datatype minutes = Minutes int | Infinity | NaN

definition minutesBetween :: "Date \<Rightarrow> Date \<Rightarrow> minutes" where
  "minutesBetween later earlier =
     (case number_minus (getTime later) (getTime earlier) of
        None \<Rightarrow> NaN
      | Some diff \<Rightarrow> Minutes (diff div (1000 * 60)))"

definition minutesUntilMarketOpen :: "MarketHoursConfig \<Rightarrow> Date \<Rightarrow> minutes option" where
  "minutesUntilMarketOpen config now =
     (case isMarketOpen config now of
        None \<Rightarrow> None
      | Some status \<Rightarrow>
          if isOpen status then Some (Minutes 0)
          else (case nextOpenTime status of
                  None \<Rightarrow> Some Infinity
                | Some next \<Rightarrow> Some (minutesBetween next now)))"

definition minutesUntilMarketClose :: "MarketHoursConfig \<Rightarrow> Date \<Rightarrow> minutes option" where
  "minutesUntilMarketClose config now =
     (case isMarketOpen config now of
        None \<Rightarrow> None
      | Some status \<Rightarrow>
          if \<not> isOpen status then Some (Minutes 0)
          else (case nextCloseTime status of
                  None \<Rightarrow> Some (Minutes 0)
                | Some close \<Rightarrow> Some (minutesBetween close now)))"

subsection \<open>Well-formed configurations\<close>

text \<open>
  What the specification asks of a \<open>MarketHoursConfig\<close>: \<open>openTime\<close> and \<open>closeTime\<close> are
  \<open>HH:MM\<close> strings of a 24-hour clock, \<open>openDays\<close> holds weekday numbers from 0 to 6,
  and the holidays are \<open>YYYY-MM-DD\<close> strings. The other definitions name the values
  \<open>isMarketOpen\<close> compares: the minute of the day of \<open>now\<close>, and the open and close
  minutes with the grace periods applied.
\<close>

definition wellFormedTime :: "string \<Rightarrow> bool" where
  "wellFormedTime s =
     (case s of
        [h1, h2, c, m1, m2] \<Rightarrow>
          is_digit h1 \<and> is_digit h2 \<and> c = CHR '':'' \<and> is_digit m1 \<and> is_digit m2 \<and>
          10 * digit_val h1 + digit_val h2 < 24 \<and> 10 * digit_val m1 + digit_val m2 < 60
      | _ \<Rightarrow> False)"

definition wellFormedDate :: "string \<Rightarrow> bool" where
  "wellFormedDate s =
     (case s of
        [y1, y2, y3, y4, c1, m1, m2, c2, d1, d2] \<Rightarrow>
          list_all is_digit [y1, y2, y3, y4, m1, m2, d1, d2] \<and> c1 = CHR ''-'' \<and> c2 = CHR ''-''
      | _ \<Rightarrow> False)"

definition wellFormedConfig :: "MarketHoursConfig \<Rightarrow> bool" where
  "wellFormedConfig config =
     (wellFormedTime (openTime config) \<and> wellFormedTime (closeTime config) \<and>
      list_all (\<lambda>d. 0 \<le> d \<and> d \<le> 6) (openDays config) \<and>
      (case holidays config of None \<Rightarrow> True | Some hs \<Rightarrow> list_all wellFormedDate hs))"

definition minuteOfDay :: "Date \<Rightarrow> int option" where
  "minuteOfDay now = number_plus (number_times (getHours now) (Some 60)) (getMinutes now)"

definition minutesOf :: "string \<Rightarrow> int" where
  "minutesOf time = (case hourAndMinute time of None \<Rightarrow> 0 | Some (h, m) \<Rightarrow> h * 60 + m)"

definition effectiveOpenMinutes :: "MarketHoursConfig \<Rightarrow> int" where
  "effectiveOpenMinutes config =
     minutesOf (openTime config) + (case graceAfterOpen config of None \<Rightarrow> 0 | Some g \<Rightarrow> g)"

definition effectiveCloseMinutes :: "MarketHoursConfig \<Rightarrow> int" where
  "effectiveCloseMinutes config =
     minutesOf (closeTime config) - (case graceBeforeClose config of None \<Rightarrow> 0 | Some g \<Rightarrow> g)"

subsection \<open>An open day ahead\<close>

text \<open>
  \<open>openDayAhead config now k\<close>: \<open>now\<close> is a date within the range, and the day \<open>k\<close> days
  after it (\<open>k\<close> at least 1) lies as a whole within the range, is a weekday of \<open>openDays\<close>
  and is no holiday. The search of \<open>getNextOpenTime\<close> ends on the first such day.
\<close>

definition openDayAhead :: "MarketHoursConfig \<Rightarrow> Date \<Rightarrow> nat \<Rightarrow> bool" where
  "openDayAhead config now k =
     (case now of
        Invalid_Date \<Rightarrow> False
      | Date t \<Rightarrow>
          - maxTime \<le> t \<and> 0 < k \<and> (Day t + int k + 1) * msPerDay \<le> maxTime \<and>
          Array_includes (openDays config) (getDay (Date ((Day t + int k) * msPerDay))) \<and>
          \<not> isHoliday config (formatDate (Date ((Day t + int k) * msPerDay))))"

section \<open>types.ts\<close>

record ScheduleConfig =
  intervalMinutes :: int
  respectMarketHours :: bool
  marketHours :: "MarketHoursConfig option"
  timezone :: "string option"
  runOnStart :: "bool option"
  maxConsecutiveErrors :: "int option"

text \<open>
  What a task body can throw. The scheduler does two things with the value it catches:
  \<open>String(error)\<close>, and \<open>`${error}`\<close> in the line it writes to the console. Both give
  the same string for an \<open>Error\<close> (known here by its name and its message), a string,
  \<open>undefined\<close> and \<open>null\<close>; a number, a boolean or an object with a \<open>toString\<close> of its own
  behaves like the string it is converted to. For a \<open>Symbol\<close> (known by its
  description) \<open>String\<close> gives \<open>Symbol(description)\<close> and the template literal throws a
  \<open>TypeError\<close>; for an object with no conversion to a primitive value, such as
  \<open>Object.create(null)\<close>, both throw a \<open>TypeError\<close>.
\<close>

datatype thrown =
  Error_value string string
| String_value string
| Undefined_value
| Null_value
| Symbol_value string
| Null_prototype_object

text \<open>
  What a task body or an event handler can do to the scheduler it belongs to: the model
  lets it call \<open>enableTask\<close>, \<open>disableTask\<close> and \<open>unregisterTask\<close>. Calls of the other
  methods from inside a body or a handler are outside the model.
\<close>

datatype registry_call =
  Call_enableTask string
| Call_disableTask string
| Call_unregisterTask string

text \<open>
  A task's \<open>execute\<close> is a closure of the caller's. The model gives it the state \<open>'env\<close> of
  the world outside the scheduler, which it may change, together with the calls it makes
  to the scheduler, and one of three outcomes of awaiting it: the promise is fulfilled, it
  is rejected with a thrown value (a \<open>throw\<close> in an \<open>async\<close> body), or it is never settled
  (\<open>None\<close>).
\<close>

datatype settled = Fulfilled | Rejected thrown

record 'env ScheduledTask =
  id' :: string
  name :: string
  execute :: "'env \<Rightarrow> (settled \<times> 'env \<times> registry_call list) option"
  enabled :: bool
  priority :: "int option"
  requiresMarketOpen :: "bool option"

text \<open>
  \<open>TaskExecutionResult\<close> without its optional \<open>metadata\<close>, which the scheduler never
  writes.
\<close>

record TaskExecutionResult =
  taskId :: string
  taskName :: string
  startTime :: Date
  endTime :: Date
  durationMs :: "int option"
  success :: bool
  error :: "string option"

record SchedulerState =
  isRunning :: bool
  lastRunTime :: "Date option"
  nextRunTime :: "Date option"
  totalRuns :: int
  consecutiveErrors :: int
  history :: "TaskExecutionResult list"

record OrchestratorConfig =
  schedule :: ScheduleConfig
  enablePositionMonitoring :: bool
  enableEntryScanning :: bool
  enableRollManagement :: bool
  dryRun :: bool

datatype SchedulerEventType =
  event_start
| event_stop
| event_task_start
| event_task_complete
| event_task_error
| event_market_closed
| event_error

text \<open>The payloads the scheduler puts into \<open>data\<close> (of type \<open>any\<close> in the source).\<close>

datatype event_data =
  no_data
| data_taskId string
| data_taskId_taskName string string
| data_result TaskExecutionResult
| data_status MarketStatus
| data_reason string

record SchedulerEvent =
  type :: SchedulerEventType
  timestamp :: Date
  data :: event_data

section \<open>scheduler.ts\<close>

text \<open>
  The fields of the class, followed by the world around the object: what the handlers do
  (a handler is known by a number, and \<open>handlerCalls\<close> gives the calls it makes to the
  scheduler when it is handed an event, as a function of the event; whether it throws
  makes no difference, since \<open>emit\<close> catches it), the clock (what the \<open>n\<close>-th \<open>new Date()\<close> returns, and how many
  have been read), the state \<open>env\<close> the task bodies work on, and two logs, of every event
  passed to \<open>emit\<close> and of every call of a handler with an event. \<open>intervalId\<close> holds the
  period of the armed timer. \<open>tasks\<close> is the \<open>Map\<close> in insertion order, keyed by the
  task's id. Of the calls of \<open>console\<close> only the one that can throw is kept (in
  \<open>executeTask\<close>).
\<close>

record 'env Scheduler =
  config :: ScheduleConfig
  tasks :: "'env ScheduledTask list"
  state :: SchedulerState
  intervalId :: "int option"
  eventHandlers :: "nat list"
  handlerCalls :: "nat \<Rightarrow> SchedulerEvent \<Rightarrow> registry_call list"
  clock :: "nat \<Rightarrow> Date"
  reads :: nat
  env :: 'env
  emitted :: "SchedulerEvent list"
  delivered :: "(nat \<times> SchedulerEvent) list"

definition new_Date :: "'env Scheduler \<Rightarrow> Date \<times> 'env Scheduler" where
  "new_Date w = (clock w (reads w), w\<lparr>reads := reads w + 1\<rparr>)"

text \<open>
  \<open>String(error)\<close> and \<open>`${error}`\<close> for a thrown value: the string (\<open>Inr\<close>), or the
  \<open>TypeError\<close> the conversion throws (\<open>Inl\<close>).
\<close>

definition String_thrown :: "thrown \<Rightarrow> thrown + string" where
  "String_thrown e =
     (case e of
        Error_value nm msg \<Rightarrow>
          Inr (if nm = [] then msg else if msg = [] then nm else nm @ '': '' @ msg)
      | String_value s \<Rightarrow> Inr s
      | Undefined_value \<Rightarrow> Inr ''undefined''
      | Null_value \<Rightarrow> Inr ''null''
      | Symbol_value description \<Rightarrow> Inr (''Symbol('' @ description @ '')'')
      | Null_prototype_object \<Rightarrow>
          Inl (Error_value ''TypeError'' ''Cannot convert object to primitive value''))"

definition template_literal :: "thrown \<Rightarrow> thrown + string" where
  "template_literal e =
     (case e of
        Symbol_value description \<Rightarrow>
          Inl (Error_value ''TypeError'' ''Cannot convert a Symbol value to a string'')
      | _ \<Rightarrow> String_thrown e)"

text \<open>\<open>Map.set\<close>, \<open>Map.delete\<close> and \<open>Map.get\<close> on the task map.\<close>

fun Map_set :: "'env ScheduledTask list \<Rightarrow> 'env ScheduledTask \<Rightarrow> 'env ScheduledTask list" where
  "Map_set [] task = [task]"
| "Map_set (t # ts) task = (if id' t = id' task then task # ts else t # Map_set ts task)"

definition Map_delete :: "'env ScheduledTask list \<Rightarrow> string \<Rightarrow> 'env ScheduledTask list" where
  "Map_delete ts k = filter (\<lambda>t. id' t \<noteq> k) ts"

definition Map_get :: "'env ScheduledTask list \<Rightarrow> string \<Rightarrow> 'env ScheduledTask option" where
  "Map_get ts k = find (\<lambda>t. id' t = k) ts"

text \<open>
  \<open>Array.prototype.sort(compare)\<close> is stable: elements that compare equal keep their
  order. The model is the insertion sort that has this property.
\<close>

fun insert_sorted :: "('a \<Rightarrow> 'a \<Rightarrow> int) \<Rightarrow> 'a \<Rightarrow> 'a list \<Rightarrow> 'a list" where
  "insert_sorted compare x [] = [x]"
| "insert_sorted compare x (y # ys) =
     (if compare x y \<le> 0 then x # y # ys else y # insert_sorted compare x ys)"

definition Array_sort :: "'a list \<Rightarrow> ('a \<Rightarrow> 'a \<Rightarrow> int) \<Rightarrow> 'a list" where
  "Array_sort xs compare = foldr (insert_sorted compare) xs []"

text \<open>\<open>array.slice(-n)\<close> for \<open>n > 0\<close>: the last \<open>n\<close> elements.\<close>

definition slice_last :: "'a list \<Rightarrow> nat \<Rightarrow> 'a list" where
  "slice_last xs n = drop (length xs - n) xs"

definition newScheduler ::
  "ScheduleConfig \<Rightarrow> (nat \<Rightarrow> Date) \<Rightarrow> (nat \<Rightarrow> SchedulerEvent \<Rightarrow> registry_call list) \<Rightarrow> 'env \<Rightarrow>
     'env Scheduler" where
  "newScheduler cfg clk calls e =
     \<lparr>config = cfg, tasks = [],
      state = \<lparr>isRunning = False, lastRunTime = None, nextRunTime = None, totalRuns = 0,
               consecutiveErrors = 0, history = []\<rparr>,
      intervalId = None, eventHandlers = [], handlerCalls = calls,
      clock = clk, reads = 0, env = e, emitted = [], delivered = []\<rparr>"

definition unregisterTask :: "'env Scheduler \<Rightarrow> string \<Rightarrow> 'env Scheduler" where
  "unregisterTask w k = w\<lparr>tasks := Map_delete (tasks w) k\<rparr>"

text \<open>
  \<open>enableTask\<close> and \<open>disableTask\<close> write the \<open>enabled\<close> field of the task object the map
  holds under the id. A cycle that has selected its tasks holds the same objects; in the
  model it holds the values the tasks had at the selection, and reads only the fields
  that never change (\<open>id\<close>, \<open>name\<close>, \<open>execute\<close>, \<open>requiresMarketOpen\<close>), as the loop of
  \<open>runTasks\<close> does.
\<close>

definition enableTask :: "'env Scheduler \<Rightarrow> string \<Rightarrow> 'env Scheduler" where
  "enableTask w k =
     w\<lparr>tasks := map (\<lambda>t. if id' t = k then t\<lparr>enabled := True\<rparr> else t) (tasks w)\<rparr>"

definition disableTask :: "'env Scheduler \<Rightarrow> string \<Rightarrow> 'env Scheduler" where
  "disableTask w k =
     w\<lparr>tasks := map (\<lambda>t. if id' t = k then t\<lparr>enabled := False\<rparr> else t) (tasks w)\<rparr>"

text \<open>The calls a task body or a handler makes to the scheduler, one after the other.\<close>

definition applyCall :: "'env Scheduler \<Rightarrow> registry_call \<Rightarrow> 'env Scheduler" where
  "applyCall w call =
     (case call of
        Call_enableTask k \<Rightarrow> enableTask w k
      | Call_disableTask k \<Rightarrow> disableTask w k
      | Call_unregisterTask k \<Rightarrow> unregisterTask w k)"

definition applyCalls :: "'env Scheduler \<Rightarrow> registry_call list \<Rightarrow> 'env Scheduler" where
  "applyCalls w calls = foldl applyCall w calls"

text \<open>
  \<open>emit\<close> calls every handler with the event, inside a \<open>try\<close> whose \<open>catch\<close> only logs:
  a handler that throws stops neither the loop nor the caller.
\<close>

definition emit :: "'env Scheduler \<Rightarrow> SchedulerEvent \<Rightarrow> 'env Scheduler" where
  "emit w event =
     (let w = w\<lparr>emitted := emitted w @ [event],
                delivered := delivered w @ map (\<lambda>handler. (handler, event)) (eventHandlers w)\<rparr>
      in applyCalls w (concat (map (\<lambda>handler. handlerCalls w handler event) (eventHandlers w))))"

definition registerTask :: "'env Scheduler \<Rightarrow> 'env ScheduledTask \<Rightarrow> 'env Scheduler" where
  "registerTask w task =
     (let w = w\<lparr>tasks := Map_set (tasks w) task\<rparr>;
          (now, w) = new_Date w
      in emit w \<lparr>type = event_task_start, timestamp = now, data = data_taskId (id' task)\<rparr>)"

definition stop :: "'env Scheduler \<Rightarrow> 'env Scheduler" where
  "stop w =
     (if \<not> isRunning (state w) then w
      else
        let w = (if intervalId w \<noteq> None then w\<lparr>intervalId := None\<rparr> else w);
            w = w\<lparr>state := (state w)\<lparr>isRunning := False\<rparr>\<rparr>;
            (now, w) = new_Date w
        in emit w \<lparr>type = event_stop, timestamp = now, data = no_data\<rparr>)"

text \<open>
  \<open>executeTask\<close>. The \<open>try\<close> block awaits \<open>task.execute()\<close>. The \<open>catch\<close> block takes
  whatever was thrown, builds the failure result with \<open>String(error)\<close>, writes
  \<open>`[Task] Failed: ${task.name} - ${error}`\<close> to the console, emits \<open>task_error\<close> and
  returns the result. Nothing catches what the \<open>catch\<close> block itself throws: when one of
  the two conversions throws, the promise of \<open>executeTask\<close> is rejected with that
  \<open>TypeError\<close> (\<open>Inl\<close>), at the place where the block stood.
\<close>

definition executeTask ::
  "'env Scheduler \<Rightarrow> 'env ScheduledTask \<Rightarrow>
     ((thrown + TaskExecutionResult) \<times> 'env Scheduler) option" where
  "executeTask w task =
     (let (start_time, w) = new_Date w;
          w = emit w \<lparr>type = event_task_start, timestamp = start_time,
                      data = data_taskId_taskName (id' task) (name task)\<rparr>
      in case execute task (env w) of
           None \<Rightarrow> None
         | Some (Fulfilled, e, calls) \<Rightarrow>
             (let w = applyCalls (w\<lparr>env := e\<rparr>) calls;
                  (end_time, w) = new_Date w;
                  result = \<lparr>taskId = id' task, taskName = name task, startTime = start_time,
                            endTime = end_time,
                            durationMs = number_minus (getTime end_time) (getTime start_time),
                            success = True, error = None\<rparr>;
                  w = emit w \<lparr>type = event_task_complete, timestamp = end_time,
                              data = data_result result\<rparr>
              in Some (Inr result, w))
         | Some (Rejected err, e, calls) \<Rightarrow>
             (let w = applyCalls (w\<lparr>env := e\<rparr>) calls;
                  (end_time, w) = new_Date w
              in case String_thrown err of
                   Inl type_error \<Rightarrow> Some (Inl type_error, w)
                 | Inr message \<Rightarrow>
                     (let result = \<lparr>taskId = id' task, taskName = name task,
                                     startTime = start_time, endTime = end_time,
                                     durationMs = number_minus (getTime end_time) (getTime start_time),
                                     success = False, error = Some message\<rparr>
                      in case template_literal err of
                           Inl type_error \<Rightarrow> Some (Inl type_error, w)
                         | Inr line \<Rightarrow>
                             Some (Inr result,
                                   emit w \<lparr>type = event_task_error, timestamp = end_time,
                                           data = data_result result\<rparr>))))"

text \<open>
  The check at the head of the loop body of \<open>runTasks\<close>: whether the task is passed over
  because it needs an open market. The clock is read only when the three conditions
  before it hold.
\<close>

definition skipsTask :: "'env Scheduler \<Rightarrow> 'env ScheduledTask \<Rightarrow> (bool \<times> 'env Scheduler) option" where
  "skipsTask w task =
     (if requiresMarketOpen task = Some True \<and> respectMarketHours (config w)
      then (case marketHours (config w) of
              None \<Rightarrow> Some (False, w)
            | Some mh \<Rightarrow>
                (let (now, w) = new_Date w
                 in map_option (\<lambda>marketStatus. (\<not> isOpen marketStatus, w)) (isMarketOpen mh now)))
      else Some (False, w))"

text \<open>
  The \<open>for\<close> loop of \<open>runTasks\<close>, with its variables \<open>results\<close> and \<open>hasError\<close>, over the
  tasks selected before the loop: the registry is not read again, whatever the bodies
  and the handlers have done to it in the meantime. When \<open>executeTask\<close> is rejected the
  \<open>await\<close> throws, and the loop and \<open>runTasks\<close> end there (\<open>Inl\<close>).
\<close>

fun executeTasks ::
  "'env Scheduler \<Rightarrow> 'env ScheduledTask list \<Rightarrow> TaskExecutionResult list \<Rightarrow> bool \<Rightarrow>
     ((thrown + TaskExecutionResult list \<times> bool) \<times> 'env Scheduler) option" where
  "executeTasks w [] results hasError = Some (Inr (results, hasError), w)"
| "executeTasks w (task # rest) results hasError =
     (case skipsTask w task of
        None \<Rightarrow> None
      | Some (skip, w) \<Rightarrow>
          if skip then executeTasks w rest results hasError
          else (case executeTask w task of
                  None \<Rightarrow> None
                | Some (Inl type_error, w) \<Rightarrow> Some (Inl type_error, w)
                | Some (Inr result, w) \<Rightarrow>
                    executeTasks w rest (results @ [result])
                      (if \<not> success result then True else hasError)))"

text \<open>
  How a cycle ended: at the \<open>return\<close> after \<open>market_closed\<close>, at the \<open>return\<close> for no
  enabled task, at the end of the function, with the results of the loop, or with the
  promise of \<open>runTasks\<close> rejected.
\<close>

datatype cycle_end =
  Market_closed MarketStatus
| No_enabled_tasks
| Completed "TaskExecutionResult list"
| Cycle_rejected thrown

text \<open>\<open>task.priority ?? 0\<close>, and the comparison function given to \<open>sort\<close>.\<close>

definition priorityOrZero :: "'env ScheduledTask \<Rightarrow> int" where
  "priorityOrZero task = (case priority task of None \<Rightarrow> 0 | Some p \<Rightarrow> p)"

definition priority_order :: "'env ScheduledTask \<Rightarrow> 'env ScheduledTask \<Rightarrow> int" where
  "priority_order a b = priorityOrZero b - priorityOrZero a"

definition enabledTasks :: "'env Scheduler \<Rightarrow> 'env ScheduledTask list" where
  "enabledTasks w = Array_sort (filter enabled (tasks w)) priority_order"

text \<open>
  The part of \<open>runTasks\<close> after the loop, in two steps: the update of the state, and the
  check whether the scheduler has to stop because of the errors.
\<close>

definition updateState ::
  "'env Scheduler \<Rightarrow> TaskExecutionResult list \<Rightarrow> bool \<Rightarrow> 'env Scheduler" where
  "updateState w results hasError =
     (let w = w\<lparr>state := (state w)\<lparr>totalRuns := totalRuns (state w) + 1\<rparr>\<rparr>;
          w = w\<lparr>state := (state w)\<lparr>history := history (state w) @ results\<rparr>\<rparr>;
          w = (if length (history (state w)) > 100
               then w\<lparr>state := (state w)\<lparr>history := slice_last (history (state w)) 100\<rparr>\<rparr>
               else w)
      in if hasError
         then w\<lparr>state := (state w)\<lparr>consecutiveErrors := consecutiveErrors (state w) + 1\<rparr>\<rparr>
         else w\<lparr>state := (state w)\<lparr>consecutiveErrors := 0\<rparr>\<rparr>)"

definition maxErrors :: "'env Scheduler \<Rightarrow> int" where
  "maxErrors w = (case maxConsecutiveErrors (config w) of None \<Rightarrow> 10 | Some m \<Rightarrow> m)"

definition stopOnErrors :: "'env Scheduler \<Rightarrow> 'env Scheduler" where
  "stopOnErrors w =
     (if consecutiveErrors (state w) \<ge> maxErrors w
      then (let w = stop w;
                (now, w) = new_Date w
            in emit w \<lparr>type = event_error, timestamp = now,
                        data = data_reason ''max_consecutive_errors''\<rparr>)
      else w)"

text \<open>The part of \<open>runTasks\<close> from the selection of the enabled tasks on.\<close>

definition runEnabledTasks :: "'env Scheduler \<Rightarrow> (cycle_end \<times> 'env Scheduler) option" where
  "runEnabledTasks w =
     (let enabled_tasks = enabledTasks w
      in if length enabled_tasks = 0 then Some (No_enabled_tasks, w)
         else (case executeTasks w enabled_tasks [] False of
                 None \<Rightarrow> None
               | Some (Inl type_error, w) \<Rightarrow> Some (Cycle_rejected type_error, w)
               | Some (Inr (results, hasError), w) \<Rightarrow>
                   Some (Completed results, stopOnErrors (updateState w results hasError))))"

text \<open>
  \<open>runTasks\<close>, one cycle. It is \<open>None\<close> when the cycle does not come to an end: a task's
  promise is never settled, or \<open>isMarketOpen\<close> does not return. A cycle runs here from its
  start to its end with no other cycle and no call of a method from outside in between;
  the source lets both happen while a cycle is suspended at an \<open>await\<close>, which this model
  leaves out.
\<close>

definition runTasks :: "'env Scheduler \<Rightarrow> (cycle_end \<times> 'env Scheduler) option" where
  "runTasks w =
     (let (now, w) = new_Date w;
          w = w\<lparr>state := (state w)\<lparr>lastRunTime := Some now\<rparr>\<rparr>;
          nextRun = Date_of_number
                      (number_plus (getTime now) (Some (intervalMinutes (config w) * 60 * 1000)));
          w = w\<lparr>state := (state w)\<lparr>nextRunTime := Some nextRun\<rparr>\<rparr>
      in case (if respectMarketHours (config w) then marketHours (config w) else None) of
           Some mh \<Rightarrow>
             (case isMarketOpen mh now of
                None \<Rightarrow> None
              | Some marketStatus \<Rightarrow>
                  if \<not> isOpen marketStatus
                  then Some (Market_closed marketStatus,
                             emit w \<lparr>type = event_market_closed, timestamp = now,
                                     data = data_status marketStatus\<rparr>)
                  else runEnabledTasks w)
         | None \<Rightarrow> runEnabledTasks w)"

text \<open>
  \<open>start\<close>. With \<open>runOnStart\<close> it calls \<open>runTasks\<close> without awaiting it, and arms the
  timer when that call has returned its promise: when the cycle has ended without an
  \<open>await\<close>, or stands at its first one. The only \<open>await\<close> of a cycle is the one on
  \<open>executeTask\<close>, so a cycle has awaited when it ended with a result of a task or with
  a rejection (\<open>awaited\<close>). Such a cycle goes on after the timer is armed, and since
  nothing in it before that \<open>await\<close> reads or writes the timer, it is the cycle run from
  the state with the timer armed. A cycle that ended without an \<open>await\<close> has done all
  its work, a \<open>stop\<close> included, before the timer is armed. The result of \<open>start\<close> is the
  state when that first cycle has ended (a rejection is caught and logged), \<open>None\<close> when
  it does not end.
\<close>

definition awaited :: "cycle_end \<Rightarrow> bool" where
  "awaited c =
     (case c of
        Completed results \<Rightarrow> results \<noteq> []
      | Cycle_rejected type_error \<Rightarrow> True
      | _ \<Rightarrow> False)"

definition start :: "'env Scheduler \<Rightarrow> 'env Scheduler option" where
  "start w =
     (if isRunning (state w) then Some w
      else
        let w = w\<lparr>state := (state w)\<lparr>isRunning := True\<rparr>\<rparr>;
            (now, w) = new_Date w;
            w = emit w \<lparr>type = event_start, timestamp = now, data = no_data\<rparr>;
            intervalMs = intervalMinutes (config w) * 60 * 1000
        in if runOnStart (config w) = Some True
           then (case runTasks w of
                   None \<Rightarrow> None
                 | Some (c, w') \<Rightarrow>
                     if awaited c then map_option snd (runTasks (w\<lparr>intervalId := Some intervalMs\<rparr>))
                     else Some (w'\<lparr>intervalId := Some intervalMs\<rparr>))
           else Some (w\<lparr>intervalId := Some intervalMs\<rparr>))"

text \<open>\<open>runNow\<close> awaits the cycle: it is rejected when the cycle is.\<close>

definition runNow :: "'env Scheduler \<Rightarrow> (cycle_end \<times> 'env Scheduler) option" where
  "runNow w = runTasks w"



definition clearHistory :: "'env Scheduler \<Rightarrow> 'env Scheduler" where
  "clearHistory w = w\<lparr>state := (state w)\<lparr>history := []\<rparr>\<rparr>"

definition on :: "'env Scheduler \<Rightarrow> nat \<Rightarrow> 'env Scheduler" where
  "on w handler = w\<lparr>eventHandlers := eventHandlers w @ [handler]\<rparr>"

definition off :: "'env Scheduler \<Rightarrow> nat \<Rightarrow> 'env Scheduler" where
  "off w handler = w\<lparr>eventHandlers := remove1 handler (eventHandlers w)\<rparr>"

definition getTasks :: "'env Scheduler \<Rightarrow> 'env ScheduledTask list" where
  "getTasks w = tasks w"

text \<open>
  The callback of \<open>setInterval\<close>: one cycle, whenever the timer fires; a rejection is
  caught and logged. A timer that is not armed does not fire, and nothing changes.
\<close>

definition timerTick :: "'env Scheduler \<Rightarrow> 'env Scheduler option" where
  "timerTick w = (if intervalId w = None then Some w else map_option snd (runTasks w))"

text \<open>
  \<open>emits w w' events\<close>: from \<open>w\<close> to \<open>w'\<close> exactly \<open>events\<close> were passed to \<open>emit\<close>, in
  this order, each one handed to every subscribed handler, and the subscriptions are the
  same. \<open>cycleStart\<close> is the state after the first statements of \<open>runTasks\<close>, where the
  clock has been read and the two run times are set.
\<close>

definition deliveries :: "nat list \<Rightarrow> SchedulerEvent list \<Rightarrow> (nat \<times> SchedulerEvent) list" where
  "deliveries handlers events =
     concat (map (\<lambda>event. map (\<lambda>handler. (handler, event)) handlers) events)"

definition emits :: "'env Scheduler \<Rightarrow> 'env Scheduler \<Rightarrow> SchedulerEvent list \<Rightarrow> bool" where
  "emits w w' events =
     (emitted w' = emitted w @ events \<and>
      delivered w' = delivered w @ deliveries (eventHandlers w) events \<and>
      eventHandlers w' = eventHandlers w)"

definition task_event :: "SchedulerEvent \<Rightarrow> bool" where
  "task_event ev =
     (type ev = event_task_start \<or> type ev = event_task_complete \<or> type ev = event_task_error)"

definition cycleStart :: "'env Scheduler \<Rightarrow> 'env Scheduler" where
  "cycleStart w =
     w\<lparr>reads := reads w + 1,
       state := (state w)
         \<lparr>lastRunTime := Some (clock w (reads w)),
          nextRunTime :=
            Some (Date_of_number
                    (number_plus (getTime (clock w (reads w)))
                       (Some (intervalMinutes (config w) * 60 * 1000))))\<rparr>\<rparr>"

text \<open>
  What can happen to a scheduler: a call of one of its methods, or its timer firing.
  \<open>performAll\<close> runs a sequence of them from left to right.
\<close>

datatype 'env operation =
  Op_registerTask "'env ScheduledTask"
| Op_unregisterTask string
| Op_start
| Op_stop
| Op_timerTick
| Op_runNow
| Op_clearHistory
| Op_on nat
| Op_off nat
| Op_enableTask string
| Op_disableTask string

fun perform :: "'env operation \<Rightarrow> 'env Scheduler \<Rightarrow> 'env Scheduler option" where
  "perform (Op_registerTask task) w = Some (registerTask w task)"
| "perform (Op_unregisterTask k) w = Some (unregisterTask w k)"
| "perform Op_start w = start w"
| "perform Op_stop w = Some (stop w)"
| "perform Op_timerTick w = timerTick w"
| "perform Op_runNow w = map_option snd (runNow w)"
| "perform Op_clearHistory w = Some (clearHistory w)"
| "perform (Op_on handler) w = Some (on w handler)"
| "perform (Op_off handler) w = Some (off w handler)"
| "perform (Op_enableTask k) w = Some (enableTask w k)"
| "perform (Op_disableTask k) w = Some (disableTask w k)"

fun performAll :: "'env operation list \<Rightarrow> 'env Scheduler \<Rightarrow> 'env Scheduler option" where
  "performAll [] w = Some w"
| "performAll (oper # opers) w = Option.bind (perform oper w) (performAll opers)"

section \<open>orchestrator.ts\<close>

text \<open>
  The class \<open>TradingOrchestrator\<close>: its scheduler and its configuration (the field
  \<open>config\<close> of the class; the name is taken by the scheduler's field here).
\<close>

record 'env TradingOrchestrator =
  scheduler :: "'env Scheduler"
  orchestratorConfig :: OrchestratorConfig

text \<open>
  The three task bodies write to the console and return, in dry-run mode and outside it
  (where the work is still to be implemented): the promise is fulfilled, the world is as
  it was, and the scheduler is not called.
\<close>

definition monitorPositions :: "'env \<Rightarrow> (settled \<times> 'env \<times> registry_call list) option" where
  "monitorPositions e = Some (Fulfilled, e, [])"

definition scanForEntries :: "'env \<Rightarrow> (settled \<times> 'env \<times> registry_call list) option" where
  "scanForEntries e = Some (Fulfilled, e, [])"

definition manageRolls :: "'env \<Rightarrow> (settled \<times> 'env \<times> registry_call list) option" where
  "manageRolls e = Some (Fulfilled, e, [])"

definition registerDefaultTasks :: "OrchestratorConfig \<Rightarrow> 'env Scheduler \<Rightarrow> 'env Scheduler" where
  "registerDefaultTasks cfg s =
     (let s = (if enablePositionMonitoring cfg
               then registerTask s
                      \<lparr>id' = ''position-monitor'', name = ''Monitor Positions for Exit/Roll'',
                       execute = monitorPositions, enabled = True, priority = Some 100,
                       requiresMarketOpen = Some True\<rparr>
               else s);
          s = (if enableEntryScanning cfg
               then registerTask s
                      \<lparr>id' = ''entry-scanner'', name = ''Scan for Entry Opportunities'',
                       execute = scanForEntries, enabled = True, priority = Some 50,
                       requiresMarketOpen = Some True\<rparr>
               else s);
          s = (if enableRollManagement cfg
               then registerTask s
                      \<lparr>id' = ''roll-manager'', name = ''Check Positions for Rolling'',
                       execute = manageRolls, enabled = True, priority = Some 75,
                       requiresMarketOpen = Some True\<rparr>
               else s)
      in s)"

definition newTradingOrchestrator ::
  "OrchestratorConfig \<Rightarrow> (nat \<Rightarrow> Date) \<Rightarrow> (nat \<Rightarrow> SchedulerEvent \<Rightarrow> registry_call list) \<Rightarrow> 'env \<Rightarrow>
     'env TradingOrchestrator" where
  "newTradingOrchestrator cfg clk calls e =
     (let cfg = (if marketHours (schedule cfg) = None
                 then cfg\<lparr>schedule := (schedule cfg)\<lparr>marketHours := Some getUSMarketHoursConfig\<rparr>\<rparr>
                 else cfg);
          s = newScheduler (schedule cfg) clk calls e
      in \<lparr>scheduler = registerDefaultTasks cfg s, orchestratorConfig = cfg\<rparr>)"

text \<open>The three keys \<open>setFeatureEnabled\<close> accepts, and \<open>this.config[feature] = enabled\<close>.\<close>

datatype feature =
  key_enablePositionMonitoring
| key_enableEntryScanning
| key_enableRollManagement

definition setFeature :: "OrchestratorConfig \<Rightarrow> feature \<Rightarrow> bool \<Rightarrow> OrchestratorConfig" where
  "setFeature cfg f b =
     (case f of
        key_enablePositionMonitoring \<Rightarrow> cfg\<lparr>enablePositionMonitoring := b\<rparr>
      | key_enableEntryScanning \<Rightarrow> cfg\<lparr>enableEntryScanning := b\<rparr>
      | key_enableRollManagement \<Rightarrow> cfg\<lparr>enableRollManagement := b\<rparr>)"

definition getFeature :: "OrchestratorConfig \<Rightarrow> feature \<Rightarrow> bool" where
  "getFeature cfg f =
     (case f of
        key_enablePositionMonitoring \<Rightarrow> enablePositionMonitoring cfg
      | key_enableEntryScanning \<Rightarrow> enableEntryScanning cfg
      | key_enableRollManagement \<Rightarrow> enableRollManagement cfg)"

definition taskMap :: "feature \<Rightarrow> string" where
  "taskMap f =
     (case f of
        key_enablePositionMonitoring \<Rightarrow> ''position-monitor''
      | key_enableEntryScanning \<Rightarrow> ''entry-scanner''
      | key_enableRollManagement \<Rightarrow> ''roll-manager'')"

definition setFeatureEnabled ::
  "'env TradingOrchestrator \<Rightarrow> feature \<Rightarrow> bool \<Rightarrow> 'env TradingOrchestrator" where
  "setFeatureEnabled orch f b =
     (let orch = orch\<lparr>orchestratorConfig := setFeature (orchestratorConfig orch) f b\<rparr>;
          k = taskMap f
      in if b then orch\<lparr>scheduler := enableTask (scheduler orch) k\<rparr>
         else orch\<lparr>scheduler := disableTask (scheduler orch) k\<rparr>)"

definition registerCustomTask ::
  "'env TradingOrchestrator \<Rightarrow> 'env ScheduledTask \<Rightarrow> 'env TradingOrchestrator" where
  "registerCustomTask orch task = orch\<lparr>scheduler := registerTask (scheduler orch) task\<rparr>"

definition createDefaultOrchestrator ::
  "bool \<Rightarrow> (nat \<Rightarrow> Date) \<Rightarrow> (nat \<Rightarrow> SchedulerEvent \<Rightarrow> registry_call list) \<Rightarrow> 'env \<Rightarrow>
     'env TradingOrchestrator" where
  "createDefaultOrchestrator dry clk calls e =
     newTradingOrchestrator
       \<lparr>schedule = \<lparr>intervalMinutes = 15, respectMarketHours = True,
                    marketHours = Some getUSMarketHoursConfig,
                    timezone = Some ''America/New_York'', runOnStart = Some False,
                    maxConsecutiveErrors = Some 5\<rparr>,
        enablePositionMonitoring = True, enableEntryScanning = True,
        enableRollManagement = True, dryRun = dry\<rparr> clk calls e"

section \<open>Schedulers to run the theorems on\<close>

text \<open>
  The demo of the repository, in the model: a task A of priority 100 and a task B of
  priority 50, which count their runs in the world outside (a number), a task that
  throws an \<open>Error\<close> on every run, the market hours of \<open>getUSMarketHoursConfig\<close>, handlers
  that leave the scheduler alone, and two readings of the clock on Thursday 2025-01-02,
  at 08:00 and at 10:00.
\<close>

definition demo_config :: ScheduleConfig where
  "demo_config =
     \<lparr>intervalMinutes = 15, respectMarketHours = True,
      marketHours = Some getUSMarketHoursConfig, timezone = None, runOnStart = None,
      maxConsecutiveErrors = Some 2\<rparr>"

definition demo_task_A :: "nat ScheduledTask" where
  "demo_task_A =
     \<lparr>id' = ''demo-task-a'', name = ''Demo Task A'', execute = (\<lambda>n. Some (Fulfilled, n + 1, [])),
      enabled = True, priority = Some 100, requiresMarketOpen = None\<rparr>"

definition demo_task_B :: "nat ScheduledTask" where
  "demo_task_B =
     \<lparr>id' = ''demo-task-b'', name = ''Demo Task B'', execute = (\<lambda>n. Some (Fulfilled, n + 1, [])),
      enabled = True, priority = Some 50, requiresMarketOpen = None\<rparr>"

definition demo_task_failing :: "nat ScheduledTask" where
  "demo_task_failing =
     \<lparr>id' = ''always-throws'', name = ''Always Throws'',
      execute = (\<lambda>n. Some (Rejected (Error_value ''Error'' ''boom''), n + 1, [])),
      enabled = True, priority = None, requiresMarketOpen = None\<rparr>"

definition quiet_handlers :: "nat \<Rightarrow> SchedulerEvent \<Rightarrow> registry_call list" where
  "quiet_handlers handler event = []"

definition before_open :: Date where
  "before_open = Date 1735804800000"

definition during_session :: Date where
  "during_session = Date 1735812000000"

definition demo_scheduler :: "nat Scheduler" where
  "demo_scheduler =
     registerTask
       (registerTask (newScheduler demo_config (\<lambda>n. during_session) quiet_handlers 0) demo_task_B)
       demo_task_A"

text \<open>
  More readings of the clock on that Thursday: 09:45, the open time with the grace
  period of 15 minutes; 15:45, the close time less that grace period; and 12:50. The
  last one is for the US market hours with both grace periods set to 200 minutes, where
  the open time with its grace period, 12:50, comes after the close time less its grace
  period, 12:40.
\<close>

definition at_effective_open :: Date where
  "at_effective_open = Date 1735811100000"

definition at_effective_close :: Date where
  "at_effective_close = Date 1735832700000"

definition ten_to_one :: Date where
  "ten_to_one = Date 1735822200000"

definition wide_grace_config :: MarketHoursConfig where
  "wide_grace_config = getUSMarketHoursConfig\<lparr>graceAfterOpen := Some 200, graceBeforeClose := Some 200\<rparr>"

text \<open>
  Friday 275760-09-12, the last whole day of the range of \<open>Date\<close>, at 15:45, and the US
  market hours without the list of holidays.
\<close>

definition last_friday :: Date where
  "last_friday = Date 8639999970300000"

definition weekdays_config :: MarketHoursConfig where
  "weekdays_config = getUSMarketHoursConfig\<lparr>holidays := None\<rparr>"

text \<open>
  A scheduler that is started as the session closes. It has \<open>runOnStart\<close> set,
  \<open>maxConsecutiveErrors\<close> 0 and one task, which requires the market to be open. The clock
  reads 15:44:59.999 up to the start of the first cycle, 15:45:00.000 from the check
  before the task on, and 10:00 of the next day, Friday 2025-01-03, from the seventh
  reading on, which is the start of the next cycle.
\<close>

definition closing_config :: ScheduleConfig where
  "closing_config =
     \<lparr>intervalMinutes = 15, respectMarketHours = True,
      marketHours = Some getUSMarketHoursConfig, timezone = None, runOnStart = Some True,
      maxConsecutiveErrors = Some 0\<rparr>"

definition gated_task :: "nat ScheduledTask" where
  "gated_task =
     \<lparr>id' = ''gated'', name = ''Gated Task'', execute = (\<lambda>n. Some (Fulfilled, n + 1, [])),
      enabled = True, priority = None, requiresMarketOpen = Some True\<rparr>"

definition just_before_close :: Date where
  "just_before_close = Date 1735832699999"

definition next_morning :: Date where
  "next_morning = Date 1735898400000"

definition closing_clock :: "nat \<Rightarrow> Date" where
  "closing_clock n =
     (if n \<le> 2 then just_before_close else if n \<le> 5 then at_effective_close else next_morning)"

definition closing_scheduler :: "nat Scheduler" where
  "closing_scheduler = newScheduler closing_config closing_clock quiet_handlers 0"

text \<open>
  A task that throws a \<open>Symbol\<close>, and a scheduler with this task only, which has run no
  cycle yet.
\<close>

definition symbol_task :: "nat ScheduledTask" where
  "symbol_task =
     \<lparr>id' = ''throws-symbol'', name = ''Throws Symbol'',
      execute = (\<lambda>n. Some (Rejected (Symbol_value ''boom''), n + 1, [])),
      enabled = True, priority = None, requiresMarketOpen = None\<rparr>"

definition symbol_scheduler :: "nat Scheduler" where
  "symbol_scheduler =
     registerTask (newScheduler demo_config (\<lambda>n. during_session) quiet_handlers 0) symbol_task"





text \<open>
  The invariant that links the two fields \<open>stop\<close> writes: a scheduler that is not running
  has no timer.
\<close>

definition timer_cancelled_when_stopped :: "'env Scheduler \<Rightarrow> bool" where
  "timer_cancelled_when_stopped w = (if isRunning (state w) then True else intervalId w = None)"

section \<open>The calendar, and the search for the next open day\<close>

lemma msPerDay_pos: "0 < msPerDay"
  by (simp add: msPerDay_def)

lemma maxTime_days: "maxTime = 100000000 * msPerDay"
  by (simp add: maxTime_def msPerDay_def)

lemma Day_bounds: "Day t * msPerDay \<le> t" "t < (Day t + 1) * msPerDay"
proof -
  have e: "t = t div msPerDay * msPerDay + t mod msPerDay" by simp
  have m: "0 \<le> t mod msPerDay" "t mod msPerDay < msPerDay" using msPerDay_pos by simp_all
  from e m(1) show "Day t * msPerDay \<le> t" unfolding Day_def by linarith
  have "(t div msPerDay + 1) * msPerDay = t div msPerDay * msPerDay + msPerDay"
    by (simp add: algebra_simps)
  with e m(2) show "t < (Day t + 1) * msPerDay" unfolding Day_def by linarith
qed

lemma Day_tomorrow: "Day (t + msPerDay) = Day t + 1"
  by (simp add: Day_def msPerDay_def)

lemma TimeWithinDay_tomorrow: "TimeWithinDay (t + msPerDay) = TimeWithinDay t"
  by (simp add: TimeWithinDay_def msPerDay_def)

lemma Day_of_midnight: "Day (d * msPerDay) = d"
  by (simp add: Day_def msPerDay_def)

lemma WeekDay_Day: "Day a = Day b \<Longrightarrow> WeekDay a = WeekDay b"
  by (simp add: WeekDay_def)

lemma formatDate_Day: "Day a = Day b \<Longrightarrow> formatDate (Date a) = formatDate (Date b)"
  by (simp add: formatDate_def getFullYear_def getMonth_def getDate_def YearFromTime_def
      MonthFromTime_def DateFromTime_def)

lemma setDate_tomorrow:
  "setDate (Date t) (number_plus (getDate (Date t)) (Some 1)) = TimeClip (t + msPerDay)"
  by (simp add: setDate_def getDate_def number_plus_def)

lemma setDate_Invalid: "setDate Invalid_Date n = Invalid_Date"
  by (simp add: setDate_def)

lemma TimeClip_within: "- maxTime \<le> t \<Longrightarrow> t \<le> maxTime \<Longrightarrow> TimeClip t = Date t"
  by (simp add: TimeClip_def abs_le_iff)

lemma TimeClip_beyond: "maxTime < t \<Longrightarrow> TimeClip t = Invalid_Date"
  by (simp add: TimeClip_def)

lemma days_within:
  assumes "d + 1 \<le> D" "(D + 1) * msPerDay \<le> maxTime"
  shows "(d + 2) * msPerDay \<le> maxTime"
proof -
  from assms(1) have "d + 2 \<le> D + 1" by simp
  then have "(d + 2) * msPerDay \<le> (D + 1) * msPerDay"
    using msPerDay_pos by (intro mult_right_mono) simp_all
  with assms(2) show ?thesis by linarith
qed

lemma tomorrow_within:
  assumes "- maxTime \<le> t" "Day t < D" "(D + 1) * msPerDay \<le> maxTime"
  shows "TimeClip (t + msPerDay) = Date (t + msPerDay)"
proof (rule TimeClip_within)
  show "- maxTime \<le> t + msPerDay" using assms(1) msPerDay_pos by linarith
  have "(Day t + 2) * msPerDay = (Day t + 1) * msPerDay + msPerDay" by (simp add: algebra_simps)
  with Day_bounds(2)[of t] have "t + msPerDay < (Day t + 2) * msPerDay" by linarith
  moreover have "(Day t + 2) * msPerDay \<le> maxTime"
    using assms(2,3) by (intro days_within[of _ D]) simp_all
  ultimately show "t + msPerDay \<le> maxTime" by linarith
qed

text \<open>
  The first loop ends when an open weekday lies ahead within the range, on the first
  such day.
\<close>

lemma findOpenDay_within:
  assumes "(D + 4) mod 7 \<in> set (openDays cfg)" "(D + 1) * msPerDay \<le> maxTime"
  shows "Day n \<le> D \<Longrightarrow> - maxTime \<le> n \<Longrightarrow>
         \<exists>r. findOpenDay cfg (Date n) = Some (Date r) \<and> WeekDay r \<in> set (openDays cfg) \<and>
           Day n \<le> Day r \<and> Day r \<le> D \<and> TimeWithinDay r = TimeWithinDay n \<and> - maxTime \<le> r"
proof (induction "nat (D - Day n)" arbitrary: n)
  case 0
  then have "Day n = D" by simp
  with assms(1) have o: "WeekDay n \<in> set (openDays cfg)" by (simp add: WeekDay_def)
  then have "findOpenDay cfg (Date n) = Some (Date n)"
    by (subst findOpenDay.simps) (simp add: Array_includes_def getDay_def)
  with o 0 show ?case by simp
next
  case (Suc k)
  show ?case
  proof (cases "WeekDay n \<in> set (openDays cfg)")
    case True
    then have "findOpenDay cfg (Date n) = Some (Date n)"
      by (subst findOpenDay.simps) (simp add: Array_includes_def getDay_def)
    with True Suc.prems show ?thesis by simp
  next
    case False
    from Suc.hyps(2) have lt: "Day n < D" by linarith
    have s: "findOpenDay cfg (Date n) = findOpenDay cfg (Date (n + msPerDay))"
      using False
      by (subst findOpenDay.simps)
         (simp add: Array_includes_def getDay_def setDate_tomorrow
            tomorrow_within[OF Suc.prems(2) lt assms(2)])
    have k: "k = nat (D - Day (n + msPerDay))" using Suc.hyps(2) by (simp add: Day_tomorrow)
    have a: "Day (n + msPerDay) \<le> D" using lt by (simp add: Day_tomorrow)
    have b: "- maxTime \<le> n + msPerDay" using Suc.prems(2) msPerDay_pos by linarith
    from Suc.hyps(1)[OF k a b] obtain r where
      "findOpenDay cfg (Date (n + msPerDay)) = Some (Date r)" "WeekDay r \<in> set (openDays cfg)"
      "Day (n + msPerDay) \<le> Day r" "Day r \<le> D" "TimeWithinDay r = TimeWithinDay (n + msPerDay)"
      "- maxTime \<le> r" by blast
    then show ?thesis unfolding s by (simp add: Day_tomorrow TimeWithinDay_tomorrow)
  qed
qed

text \<open>
  The second loop ends when an open weekday that is no holiday lies ahead within the
  range, on the first such day.
\<close>

lemma skipHolidays_within:
  assumes "(D + 4) mod 7 \<in> set (openDays cfg)" "(D + 1) * msPerDay \<le> maxTime"
    and "\<not> isHoliday cfg (formatDate (Date (D * msPerDay)))"
  shows "Day n \<le> D \<Longrightarrow> - maxTime \<le> n \<Longrightarrow> WeekDay n \<in> set (openDays cfg) \<Longrightarrow>
         \<exists>r. skipHolidays cfg (Date n) = Some (Date r) \<and> WeekDay r \<in> set (openDays cfg) \<and>
           \<not> isHoliday cfg (formatDate (Date r)) \<and>
           Day n \<le> Day r \<and> Day r \<le> D \<and> TimeWithinDay r = TimeWithinDay n"
proof (induction "nat (D - Day n)" arbitrary: n rule: less_induct)
  case less
  show ?case
  proof (cases "isHoliday cfg (formatDate (Date n))")
    case False
    then have "skipHolidays cfg (Date n) = Some (Date n)"
      by (subst skipHolidays.simps) simp
    with False less.prems show ?thesis by simp
  next
    case True
    have "Day n \<noteq> D"
    proof
      assume "Day n = D"
      then have "Day n = Day (D * msPerDay)" by (simp add: Day_of_midnight)
      from formatDate_Day[OF this] True assms(3) show False by simp
    qed
    with less.prems(1) have lt: "Day n < D" by simp
    have a: "Day (n + msPerDay) \<le> D" using lt by (simp add: Day_tomorrow)
    have b: "- maxTime \<le> n + msPerDay" using less.prems(2) msPerDay_pos by linarith
    from findOpenDay_within[OF assms(1,2) a b] obtain r1 where
      r1: "findOpenDay cfg (Date (n + msPerDay)) = Some (Date r1)" "WeekDay r1 \<in> set (openDays cfg)"
          "Day (n + msPerDay) \<le> Day r1" "Day r1 \<le> D"
          "TimeWithinDay r1 = TimeWithinDay (n + msPerDay)" "- maxTime \<le> r1" by blast
    have s: "skipHolidays cfg (Date n) = skipHolidays cfg (Date r1)"
      using True r1(1)
      by (subst skipHolidays.simps)
         (simp add: setDate_tomorrow tomorrow_within[OF less.prems(2) lt assms(2)])
    from r1(3) have l: "Day n < Day r1" by (simp add: Day_tomorrow)
    with r1(4) have "nat (D - Day r1) < nat (D - Day n)" by linarith
    from less.hyps[OF this r1(4) r1(6) r1(2)] obtain r where
      "skipHolidays cfg (Date r1) = Some (Date r)" "WeekDay r \<in> set (openDays cfg)"
      "\<not> isHoliday cfg (formatDate (Date r))" "Day r1 \<le> Day r" "Day r \<le> D"
      "TimeWithinDay r = TimeWithinDay r1" by blast
    with l r1(5) show ?thesis unfolding s by (simp add: TimeWithinDay_tomorrow)
  qed
qed

lemma setHours_Day:
  assumes "0 \<le> h" "h < 24" "0 \<le> m" "m < 60"
  shows "Day (Day t * msPerDay + ((h * 60 + m) * 60 + 0) * 1000 + 0) = Day t"
    and "TimeWithinDay (Day t * msPerDay + ((h * 60 + m) * 60 + 0) * 1000 + 0) = (h * 60 + m) * 60000"
proof -
  let ?x = "(h * 60 + m) * 60000"
  from assms have b: "0 \<le> ?x" "?x < msPerDay" by (simp_all add: msPerDay_def)
  have e: "Day t * msPerDay + ((h * 60 + m) * 60 + 0) * 1000 + 0 = msPerDay * Day t + ?x"
    by simp
  show "Day (Day t * msPerDay + ((h * 60 + m) * 60 + 0) * 1000 + 0) = Day t"
    unfolding Day_def[of "Day t * msPerDay + ((h * 60 + m) * 60 + 0) * 1000 + 0"]
    by (rule int_div_pos_eq[OF e b])
  show "TimeWithinDay (Day t * msPerDay + ((h * 60 + m) * 60 + 0) * 1000 + 0) = ?x"
    unfolding TimeWithinDay_def by (rule int_mod_pos_eq[OF e b])
qed

lemma is_digit_not_colon: "is_digit c \<Longrightarrow> c \<noteq> CHR '':''"
  by (auto simp: is_digit_def)

lemma digit_val_range: "0 \<le> digit_val c \<and> digit_val c \<le> 10"
proof -
  have "length (takeWhile (\<lambda>d. d \<noteq> c) ''0123456789'') \<le> length ''0123456789''"
    by (rule length_takeWhile_le)
  then show ?thesis by (simp add: digit_val_def)
qed

lemma wellFormedTime_read:
  assumes "wellFormedTime s"
  shows "\<exists>h m. hourAndMinute s = Some (h, m) \<and> 0 \<le> h \<and> h < 24 \<and> 0 \<le> m \<and> m < 60"
proof -
  from assms obtain h1 h2 m1 m2 where s: "s = [h1, h2, CHR '':'', m1, m2]"
    and d: "is_digit h1" "is_digit h2" "is_digit m1" "is_digit m2"
    and r: "10 * digit_val h1 + digit_val h2 < 24" "10 * digit_val m1 + digit_val m2 < 60"
    by (auto simp: wellFormedTime_def split: list.splits)
  from d have n: "h1 \<noteq> CHR '':''" "h2 \<noteq> CHR '':''" "m1 \<noteq> CHR '':''" "m2 \<noteq> CHR '':''"
    by (simp_all add: is_digit_not_colon)
  have "hourAndMinute s = Some (10 * digit_val h1 + digit_val h2, 10 * digit_val m1 + digit_val m2)"
    unfolding s using n d by (simp add: hourAndMinute_def Number_def)
  with r digit_val_range[of h1] digit_val_range[of h2] digit_val_range[of m1] digit_val_range[of m2]
  show ?thesis by simp
qed

text \<open>
  \<open>getNextOpenTime\<close> returns when an open day lies ahead: a valid date, on a later day
  that is an open weekday and no holiday, at the open time.
\<close>

lemma getNextOpenTime_within:
  assumes "hourAndMinute (openTime cfg) = Some (h, m)" "0 \<le> h \<and> h < 24 \<and> 0 \<le> m \<and> m < 60"
    and "openDayAhead cfg (Date t) k"
  shows "\<exists>r. getNextOpenTime cfg (Date t) = Some (Date r) \<and> WeekDay r \<in> set (openDays cfg) \<and>
           \<not> isHoliday cfg (formatDate (Date r)) \<and> Day t < Day r \<and> Day r \<le> Day t + int k \<and>
           TimeWithinDay r = (h * 60 + m) * 60000"
proof -
  let ?D = "Day t + int k"
  from assms(3) have lo: "- maxTime \<le> t" and k: "0 < k" and hi: "(?D + 1) * msPerDay \<le> maxTime"
    and wd: "(?D + 4) mod 7 \<in> set (openDays cfg)"
    and nh: "\<not> isHoliday cfg (formatDate (Date (?D * msPerDay)))"
    by (simp_all add: openDayAhead_def Array_includes_def getDay_def WeekDay_def Day_of_midnight)
  from k have lt: "Day t < ?D" by simp
  let ?n = "Day (t + msPerDay) * msPerDay + ((h * 60 + m) * 60 + 0) * 1000 + 0"
  from assms(2) have hm: "0 \<le> h" "h < 24" "0 \<le> m" "m < 60" by simp_all
  have dn: "Day ?n = Day t + 1" and tn: "TimeWithinDay ?n = (h * 60 + m) * 60000"
    using setHours_Day[OF hm, of "t + msPerDay"] by (simp_all add: Day_tomorrow)
  have n1: "- maxTime \<le> ?n"
  proof -
    from Day_bounds(1)[of ?n] Day_bounds(2)[of t] have "t < ?n" unfolding dn by linarith
    with lo show ?thesis by linarith
  qed
  have n2: "?n \<le> maxTime"
  proof -
    have "(Day t + 2) * msPerDay \<le> maxTime"
      by (rule days_within[of _ ?D]) (use lt hi in simp_all)
    moreover have "(Day ?n + 1) * msPerDay = (Day t + 2) * msPerDay" unfolding dn by simp
    ultimately show ?thesis using Day_bounds(2)[of ?n] by linarith
  qed
  have sh: "setHours (setDate (Date t) (number_plus (getDate (Date t)) (Some 1))) h m 0 0 = Date ?n"
    by (simp only: setDate_tomorrow tomorrow_within[OF lo lt hi] setHours_def Date.case
        TimeClip_within[OF n1 n2])
  have a: "Day ?n \<le> ?D" unfolding dn using k by simp
  from findOpenDay_within[OF wd hi a n1] obtain r1 where
    r1: "findOpenDay cfg (Date ?n) = Some (Date r1)" "WeekDay r1 \<in> set (openDays cfg)"
        "Day ?n \<le> Day r1" "Day r1 \<le> ?D" "TimeWithinDay r1 = TimeWithinDay ?n" "- maxTime \<le> r1"
    by blast
  from skipHolidays_within[OF wd hi nh r1(4) r1(6) r1(2)] obtain r where
    r: "skipHolidays cfg (Date r1) = Some (Date r)" "WeekDay r \<in> set (openDays cfg)"
       "\<not> isHoliday cfg (formatDate (Date r))" "Day r1 \<le> Day r" "Day r \<le> ?D"
       "TimeWithinDay r = TimeWithinDay r1" by blast
  have "getNextOpenTime cfg (Date t) =
      Option.bind
        (findOpenDay cfg (setHours (setDate (Date t) (number_plus (getDate (Date t)) (Some 1))) h m 0 0))
        (skipHolidays cfg)"
    by (simp add: getNextOpenTime_def Let_def assms(1))
  also have "\<dots> = Some (Date r)" unfolding sh r1(1) using r(1) by simp
  finally have g: "getNextOpenTime cfg (Date t) = Some (Date r)" .
  from r1(3) r(4) have "Day t < Day r" unfolding dn by linarith
  with g r(2,3,5,6) r1(5) tn show ?thesis by simp
qed

text \<open>
  Outside the range the loops do not end: \<open>findOpenDay\<close> returns nothing for the Invalid
  Date, so \<open>getNextOpenTime\<close> returns nothing from a date whose next day is out of the
  range, and \<open>isMarketOpen\<close> returns nothing for the Invalid Date.
\<close>

lemma findOpenDay_valid: "findOpenDay cfg d = Some r \<Longrightarrow> d \<noteq> Invalid_Date"
proof (rule findOpenDay.raw_induct[where P = "\<lambda>cfg d r. d \<noteq> Invalid_Date"])
  fix findOpenDay' :: "MarketHoursConfig \<Rightarrow> Date \<Rightarrow> Date option" and cfg' d' r'
  assume h: "\<And>cfg d r. findOpenDay' cfg d = Some r \<Longrightarrow> d \<noteq> Invalid_Date"
    and b: "(if \<not> Array_includes (openDays cfg') (getDay d')
             then findOpenDay' cfg' (setDate d' (number_plus (getDate d') (Some 1)))
             else Some d') = Some r'"
  show "d' \<noteq> Invalid_Date"
  proof
    assume "d' = Invalid_Date"
    with b have "findOpenDay' cfg' Invalid_Date = Some r'"
      by (simp add: Array_includes_def getDay_def setDate_Invalid)
    from h[OF this] show False by simp
  qed
qed

lemma findOpenDay_Invalid: "findOpenDay cfg Invalid_Date = None"
  using findOpenDay_valid[of cfg Invalid_Date] by (cases "findOpenDay cfg Invalid_Date") auto

lemma getNextOpenTime_beyond:
  assumes "maxTime < t + msPerDay"
  shows "getNextOpenTime cfg (Date t) = None"
  by (simp add: getNextOpenTime_def Let_def setDate_tomorrow TimeClip_beyond[OF assms]
      setHours_def findOpenDay_Invalid split: option.splits)

lemma getNextOpenTime_Invalid: "getNextOpenTime cfg Invalid_Date = None"
  by (simp add: getNextOpenTime_def Let_def setDate_Invalid setHours_def findOpenDay_Invalid
      split: option.splits)

lemma isMarketOpen_Invalid: "isMarketOpen cfg Invalid_Date = None"
  by (simp add: isMarketOpen_def Let_def getDay_def Array_includes_def getNextOpenTime_Invalid)

text \<open>
  At 15:45 of the last Friday of the range, a weekday of \<open>openDays\<close> and the minute
  \<open>closeTime - graceBeforeClose\<close> of the US market hours, \<open>isMarketOpen\<close> does not
  return.
\<close>

lemma no_answer_on_the_last_friday:
  "TimeClip 8639999970300000 = last_friday \<and>
   wellFormedConfig weekdays_config \<and>
   Array_includes (openDays weekdays_config) (getDay last_friday) \<and>
   \<not> isHoliday weekdays_config (formatDate last_friday) \<and>
   minuteOfDay last_friday = Some (effectiveCloseMinutes weekdays_config) \<and>
   isMarketOpen weekdays_config last_friday = None"
proof -
  have n: "getNextOpenTime weekdays_config (Date 8639999970300000) = None"
    by (rule getNextOpenTime_beyond) (simp add: maxTime_def msPerDay_def)
  have f: "getDay (Date 8639999970300000) = Some 5"
    "minuteOfDay (Date 8639999970300000) = Some 945"
    "TimeClip 8639999970300000 = Date 8639999970300000"
    by (simp_all add: getDay_def WeekDay_def Day_def msPerDay_def minuteOfDay_def getHours_def
        getMinutes_def HourFromTime_def MinFromTime_def TimeWithinDay_def number_plus_def
        number_times_def TimeClip_def maxTime_def)
  have w: "wellFormedConfig weekdays_config" by code_simp
  have e: "effectiveCloseMinutes weekdays_config = 945" by code_simp
  have o: "hourAndMinute (openTime weekdays_config) = Some (9, 30)"
    and c: "hourAndMinute (closeTime weekdays_config) = Some (16, 0)"
    by code_simp+
  have g: "graceAfterOpen weekdays_config = Some 15" "graceBeforeClose weekdays_config = Some 15"
    "openDays weekdays_config = [1, 2, 3, 4, 5]" "holidays weekdays_config = None"
    by (simp_all add: weekdays_config_def getUSMarketHoursConfig_def)
  have h: "\<not> isHoliday weekdays_config (formatDate last_friday)"
    by (simp add: isHoliday_def g)
  have i: "Array_includes (openDays weekdays_config) (getDay last_friday)"
    by (simp add: last_friday_def f g Array_includes_def)
  have "isMarketOpen weekdays_config (Date 8639999970300000) = None"
    using f(2) unfolding minuteOfDay_def
    by (simp add: isMarketOpen_def Let_def n o c g number_less_def number_greater_eq_def)
  with f w e h i show ?thesis by (simp add: last_friday_def)
qed

text \<open>
  What \<open>isMarketOpen\<close> returns on an open weekday that is no holiday, for a well-formed
  config: the status of the minute of the day; a closed status, with the next open time,
  when an open day lies ahead.
\<close>

lemma valid_when_included: "Array_includes xs (getDay now) \<Longrightarrow> \<exists>t. now = Date t"
  by (cases now) (simp_all add: Array_includes_def getDay_def)

lemma minuteOfDay_Date: "minuteOfDay (Date t) = Some (HourFromTime t * 60 + MinFromTime t)"
  by (simp add: minuteOfDay_def getHours_def getMinutes_def number_plus_def number_times_def)

lemma isMarketOpen_on_open_day:
  assumes "wellFormedConfig cfg"
    and "Array_includes (openDays cfg) (getDay now)"
    and "\<not> isHoliday cfg (formatDate now)"
    and "minuteOfDay now = Some minute"
  shows "(effectiveOpenMinutes cfg \<le> minute \<and> minute < effectiveCloseMinutes cfg \<longrightarrow>
           (\<exists>close. isMarketOpen cfg now =
              Some \<lparr>isOpen = True, currentTime = now, closedReason = None,
                    nextOpenTime = None, nextCloseTime = Some close\<rparr>)) \<and>
         (openDayAhead cfg now k \<and> minute < effectiveOpenMinutes cfg \<longrightarrow>
           (\<exists>t r. now = Date t \<and> isMarketOpen cfg now =
              Some (closedStatus now (''Before market open (opens at '' @ openTime cfg @ '')'') (Date r)) \<and>
              WeekDay r \<in> set (openDays cfg) \<and> \<not> isHoliday cfg (formatDate (Date r)) \<and>
              Day t < Day r \<and> TimeWithinDay r = minutesOf (openTime cfg) * 60000)) \<and>
         (openDayAhead cfg now k \<and> effectiveOpenMinutes cfg \<le> minute \<and>
          effectiveCloseMinutes cfg \<le> minute \<longrightarrow>
           (\<exists>t r. now = Date t \<and> isMarketOpen cfg now =
              Some (closedStatus now (''After market close (closed at '' @ closeTime cfg @ '')'') (Date r)) \<and>
              WeekDay r \<in> set (openDays cfg) \<and> \<not> isHoliday cfg (formatDate (Date r)) \<and>
              Day t < Day r \<and> TimeWithinDay r = minutesOf (openTime cfg) * 60000))"
proof -
  from valid_when_included[OF assms(2)] obtain t where t: "now = Date t" by blast
  from assms(1) have "wellFormedTime (openTime cfg)" "wellFormedTime (closeTime cfg)"
    by (simp_all add: wellFormedConfig_def)
  then obtain oh om ch cm where
    o: "hourAndMinute (openTime cfg) = Some (oh, om)" "0 \<le> oh \<and> oh < 24 \<and> 0 \<le> om \<and> om < 60" and
    c: "hourAndMinute (closeTime cfg) = Some (ch, cm)"
    using wellFormedTime_read by blast
  have nc: "getNextCloseTime cfg now = Some (setHours now ch cm 0 0)"
    using c by (simp add: getNextCloseTime_def)
  have eo: "effectiveOpenMinutes cfg = oh * 60 + om + (case graceAfterOpen cfg of None \<Rightarrow> 0 | Some g \<Rightarrow> g)"
    by (simp add: effectiveOpenMinutes_def minutesOf_def o)
  have ec: "effectiveCloseMinutes cfg = ch * 60 + cm - (case graceBeforeClose cfg of None \<Rightarrow> 0 | Some g \<Rightarrow> g)"
    by (simp add: effectiveCloseMinutes_def minutesOf_def c)
  have mo: "minutesOf (openTime cfg) = oh * 60 + om" by (simp add: minutesOf_def o)
  have u: "isMarketOpen cfg now =
     (if minute < effectiveOpenMinutes cfg
      then map_option (closedStatus now (''Before market open (opens at '' @ openTime cfg @ '')''))
             (getNextOpenTime cfg now)
      else if minute \<ge> effectiveCloseMinutes cfg
      then map_option (closedStatus now (''After market close (closed at '' @ closeTime cfg @ '')''))
             (getNextOpenTime cfg now)
      else Some \<lparr>isOpen = True, currentTime = now, closedReason = None,
                 nextOpenTime = None, nextCloseTime = Some (setHours now ch cm 0 0)\<rparr>)"
    using assms(2,3,4) unfolding eo ec minuteOfDay_def
    by (simp add: isMarketOpen_def Let_def o c nc number_less_def number_greater_eq_def)
  have ahead: "\<exists>r. getNextOpenTime cfg now = Some (Date r) \<and> WeekDay r \<in> set (openDays cfg) \<and>
      \<not> isHoliday cfg (formatDate (Date r)) \<and> Day t < Day r \<and>
      TimeWithinDay r = minutesOf (openTime cfg) * 60000" if "openDayAhead cfg now k"
    using getNextOpenTime_within[OF o, of t k] that unfolding t mo by blast
  show ?thesis
  proof (intro conjI impI)
    assume "effectiveOpenMinutes cfg \<le> minute \<and> minute < effectiveCloseMinutes cfg"
    then show "\<exists>close. isMarketOpen cfg now =
              Some \<lparr>isOpen = True, currentTime = now, closedReason = None,
                    nextOpenTime = None, nextCloseTime = Some close\<rparr>"
      unfolding u by simp
  next
    assume a: "openDayAhead cfg now k \<and> minute < effectiveOpenMinutes cfg"
    with ahead obtain r where "getNextOpenTime cfg now = Some (Date r)" "WeekDay r \<in> set (openDays cfg)"
      "\<not> isHoliday cfg (formatDate (Date r))" "Day t < Day r"
      "TimeWithinDay r = minutesOf (openTime cfg) * 60000" by blast
    with a t show "\<exists>t r. now = Date t \<and> isMarketOpen cfg now =
              Some (closedStatus now (''Before market open (opens at '' @ openTime cfg @ '')'') (Date r)) \<and>
              WeekDay r \<in> set (openDays cfg) \<and> \<not> isHoliday cfg (formatDate (Date r)) \<and>
              Day t < Day r \<and> TimeWithinDay r = minutesOf (openTime cfg) * 60000"
      unfolding u by (intro exI[of _ t] exI[of _ r]) simp
  next
    assume a: "openDayAhead cfg now k \<and> effectiveOpenMinutes cfg \<le> minute \<and>
          effectiveCloseMinutes cfg \<le> minute"
    with ahead obtain r where "getNextOpenTime cfg now = Some (Date r)" "WeekDay r \<in> set (openDays cfg)"
      "\<not> isHoliday cfg (formatDate (Date r))" "Day t < Day r"
      "TimeWithinDay r = minutesOf (openTime cfg) * 60000" by blast
    with a t show "\<exists>t r. now = Date t \<and> isMarketOpen cfg now =
              Some (closedStatus now (''After market close (closed at '' @ closeTime cfg @ '')'') (Date r)) \<and>
              WeekDay r \<in> set (openDays cfg) \<and> \<not> isHoliday cfg (formatDate (Date r)) \<and>
              Day t < Day r \<and> TimeWithinDay r = minutesOf (openTime cfg) * 60000"
      unfolding u by (intro exI[of _ t] exI[of _ r]) simp
  qed
qed

text \<open>
  A closed status is returned only when the next day is still within the range.
\<close>

lemma closed_status_within:
  assumes "isMarketOpen cfg (Date t) = Some status" "\<not> isOpen status"
  shows "t + msPerDay \<le> maxTime"
proof (rule ccontr)
  assume "\<not> t + msPerDay \<le> maxTime"
  then have n: "getNextOpenTime cfg (Date t) = None"
    by (intro getNextOpenTime_beyond) simp
  from assms show False
    by (auto simp: isMarketOpen_def Let_def n getNextCloseTime_def
        split: if_splits option.splits prod.splits)
qed

section \<open>What one cycle changes\<close>

subsection \<open>Calls from bodies and handlers touch the registry only\<close>

lemma applyCalls_tasks_only: "\<exists>ts. applyCalls w calls = w\<lparr>tasks := ts\<rparr>"
proof (induction calls arbitrary: w)
  case Nil
  show ?case by (intro exI[of _ "tasks w"]) (simp add: applyCalls_def)
next
  case (Cons c calls)
  have "\<exists>ts. applyCall w c = w\<lparr>tasks := ts\<rparr>"
    by (cases c; simp add: applyCall_def enableTask_def disableTask_def unregisterTask_def;
        rule exI; rule refl)
  then obtain ts1 where 1: "applyCall w c = w\<lparr>tasks := ts1\<rparr>" ..
  from Cons[of "w\<lparr>tasks := ts1\<rparr>"] obtain ts where
    "applyCalls (w\<lparr>tasks := ts1\<rparr>) calls = w\<lparr>tasks := ts1, tasks := ts\<rparr>" ..
  with 1 show ?case by (intro exI[of _ ts]) (simp add: applyCalls_def)
qed

lemma applyCalls_frame [simp]:
  "config (applyCalls w calls) = config w" "state (applyCalls w calls) = state w"
  "intervalId (applyCalls w calls) = intervalId w"
  "eventHandlers (applyCalls w calls) = eventHandlers w"
  "handlerCalls (applyCalls w calls) = handlerCalls w"
  "clock (applyCalls w calls) = clock w" "reads (applyCalls w calls) = reads w"
  "env (applyCalls w calls) = env w" "emitted (applyCalls w calls) = emitted w"
  "delivered (applyCalls w calls) = delivered w"
  using applyCalls_tasks_only[of w calls] by auto

lemma emit_frame [simp]:
  "config (emit w ev) = config w" "state (emit w ev) = state w"
  "intervalId (emit w ev) = intervalId w" "eventHandlers (emit w ev) = eventHandlers w"
  "handlerCalls (emit w ev) = handlerCalls w"
  "clock (emit w ev) = clock w" "reads (emit w ev) = reads w" "env (emit w ev) = env w"
  "emitted (emit w ev) = emitted w @ [ev]"
  "delivered (emit w ev) = delivered w @ map (\<lambda>handler. (handler, ev)) (eventHandlers w)"
  by (simp_all add: emit_def Let_def)

lemma emit_no_handlers:
  "eventHandlers w = [] \<Longrightarrow> emit w ev = w\<lparr>emitted := emitted w @ [ev]\<rparr>"
  by (simp add: emit_def applyCalls_def)

subsection \<open>The loop over the selected tasks\<close>

lemma executeTask_frame:
  "executeTask w t = Some (r, w') \<Longrightarrow>
     state w' = state w \<and> config w' = config w \<and>
     intervalId w' = intervalId w \<and> eventHandlers w' = eventHandlers w \<and>
     handlerCalls w' = handlerCalls w \<and> clock w' = clock w"
  by (auto simp: executeTask_def new_Date_def Let_def
      split: option.splits prod.splits settled.splits sum.splits)

lemma executeTask_result:
  "executeTask w t = Some (Inr r, w') \<Longrightarrow> taskId r = id' t \<and> taskName r = name t"
  by (auto simp: executeTask_def new_Date_def Let_def
      split: option.splits prod.splits settled.splits sum.splits)

lemma skipsTask_frame:
  "skipsTask w t = Some (b, w') \<Longrightarrow>
     state w' = state w \<and> config w' = config w \<and> tasks w' = tasks w \<and>
     intervalId w' = intervalId w \<and> eventHandlers w' = eventHandlers w \<and>
     handlerCalls w' = handlerCalls w \<and> clock w' = clock w \<and> env w' = env w \<and>
     emitted w' = emitted w"
  by (auto simp: skipsTask_def new_Date_def Let_def split: option.splits prod.splits if_splits)

lemma executeTasks_frame:
  "executeTasks w ts rs he = Some (r, w') \<Longrightarrow>
     state w' = state w \<and> config w' = config w \<and>
     intervalId w' = intervalId w \<and> eventHandlers w' = eventHandlers w \<and>
     handlerCalls w' = handlerCalls w \<and> clock w' = clock w"
proof (induction ts arbitrary: w rs he)
  case Nil
  then show ?case by auto
next
  case (Cons t ts)
  from Cons.prems obtain skip w1 where sk: "skipsTask w t = Some (skip, w1)"
    by (auto split: option.splits)
  note f1 = skipsTask_frame[OF sk]
  show ?case
  proof (cases skip)
    case True
    with Cons.prems sk have "executeTasks w1 ts rs he = Some (r, w')" by simp
    from Cons.IH[OF this] f1 show ?thesis by simp
  next
    case False
    with Cons.prems sk obtain x w2 where ex: "executeTask w1 t = Some (x, w2)"
      by (auto split: option.splits)
    note f2 = executeTask_frame[OF ex]
    show ?thesis
    proof (cases x)
      case (Inl err)
      with Cons.prems sk False ex have "w' = w2" by simp
      with f1 f2 show ?thesis by simp
    next
      case (Inr res)
      with Cons.prems sk False ex
      have "executeTasks w2 ts (rs @ [res]) (if \<not> success res then True else he) = Some (r, w')"
        by simp
      from Cons.IH[OF this] f1 f2 show ?thesis by simp
    qed
  qed
qed

lemma executeTasks_results:
  "executeTasks w ts rs he = Some (Inr (rs', he'), w') \<Longrightarrow>
     \<exists>new ex. rs' = rs @ new \<and> he' = (he \<or> \<not> list_all success new) \<and>
        subseq ex ts \<and> map taskId new = map id' ex \<and> map taskName new = map name ex"
proof (induction ts arbitrary: w rs he)
  case Nil
  then show ?case by auto
next
  case (Cons t ts)
  from Cons.prems obtain skip w1 where sk: "skipsTask w t = Some (skip, w1)"
    by (auto split: option.splits)
  show ?case
  proof (cases skip)
    case True
    with Cons.prems sk have "executeTasks w1 ts rs he = Some (Inr (rs', he'), w')" by simp
    from Cons.IH[OF this] obtain new ex where
      "rs' = rs @ new" "he' = (he \<or> \<not> list_all success new)" "subseq ex ts"
      "map taskId new = map id' ex" "map taskName new = map name ex" by blast
    then show ?thesis by (intro exI[of _ new] exI[of _ ex]) auto
  next
    case False
    with Cons.prems sk obtain r w2 where ex: "executeTask w1 t = Some (Inr r, w2)"
      and rest: "executeTasks w2 ts (rs @ [r]) (if \<not> success r then True else he) = Some (Inr (rs', he'), w')"
      by (auto split: option.splits sum.splits)
    from Cons.IH[OF rest] obtain new ex' where n:
      "rs' = (rs @ [r]) @ new" "he' = ((if \<not> success r then True else he) \<or> \<not> list_all success new)" "subseq ex' ts"
      "map taskId new = map id' ex'" "map taskName new = map name ex'" by blast
    from executeTask_result[OF ex] have "taskId r = id' t" "taskName r = name t" by auto
    with n show ?thesis
      by (intro exI[of _ "r # new"] exI[of _ "t # ex'"]) auto
  qed
qed

subsection \<open>The steps of a cycle\<close>

lemma stop_frame:
  "config (stop w) = config w \<and> env (stop w) = env w \<and>
   eventHandlers (stop w) = eventHandlers w \<and> handlerCalls (stop w) = handlerCalls w \<and>
   clock (stop w) = clock w \<and>
   totalRuns (state (stop w)) = totalRuns (state w) \<and>
   consecutiveErrors (state (stop w)) = consecutiveErrors (state w) \<and>
   history (state (stop w)) = history (state w) \<and>
   \<not> isRunning (state (stop w))"
  by (simp add: stop_def new_Date_def Let_def)

lemma stop_timer:
  "(\<not> isRunning (state w) \<longrightarrow> intervalId w = None) \<Longrightarrow> intervalId (stop w) = None"
  by (simp add: stop_def new_Date_def Let_def)

lemma stop_when_stopped: "\<not> isRunning (state w) \<Longrightarrow> stop w = w"
  by (simp add: stop_def)

lemma updateState_consecutiveErrors:
  "consecutiveErrors (state (updateState w rs he)) = (if he then consecutiveErrors (state w) + 1 else 0)"
  by (simp add: updateState_def Let_def)

lemma updateState_history:
  "history (state (updateState w rs he)) = slice_last (history (state w) @ rs) 100"
  by (simp add: updateState_def Let_def slice_last_def)

lemma updateState_totalRuns:
  "totalRuns (state (updateState w rs he)) = totalRuns (state w) + 1"
  by (simp add: updateState_def Let_def)

lemma cycleStart_frame [simp]:
  "config (cycleStart w) = config w" "tasks (cycleStart w) = tasks w" "env (cycleStart w) = env w"
  "emitted (cycleStart w) = emitted w" "eventHandlers (cycleStart w) = eventHandlers w"
  "handlerCalls (cycleStart w) = handlerCalls w" "clock (cycleStart w) = clock w"
  "intervalId (cycleStart w) = intervalId w" "delivered (cycleStart w) = delivered w"
  "totalRuns (state (cycleStart w)) = totalRuns (state w)"
  "consecutiveErrors (state (cycleStart w)) = consecutiveErrors (state w)"
  "history (state (cycleStart w)) = history (state w)"
  "isRunning (state (cycleStart w)) = isRunning (state w)"
  "enabledTasks (cycleStart w) = enabledTasks w"
  by (simp_all add: cycleStart_def enabledTasks_def)

lemma runTasks_unfold:
  "runTasks w =
     (case (if respectMarketHours (config w) then marketHours (config w) else None) of
        Some mh \<Rightarrow>
          (case isMarketOpen mh (clock w (reads w)) of
             None \<Rightarrow> None
           | Some marketStatus \<Rightarrow>
               if \<not> isOpen marketStatus
               then Some (Market_closed marketStatus,
                          emit (cycleStart w) \<lparr>type = event_market_closed, timestamp = clock w (reads w),
                                  data = data_status marketStatus\<rparr>)
               else runEnabledTasks (cycleStart w))
      | None \<Rightarrow> runEnabledTasks (cycleStart w))"
  by (simp add: runTasks_def new_Date_def Let_def cycleStart_def split: option.splits)

lemma runEnabledTasks_cases:
  "runEnabledTasks w = Some (c, w') \<Longrightarrow>
     (c = No_enabled_tasks \<and> w' = w \<and> enabledTasks w = []) \<or>
     (\<exists>rs he w1. c = Completed rs \<and> enabledTasks w \<noteq> [] \<and>
        executeTasks w (enabledTasks w) [] False = Some (Inr (rs, he), w1) \<and>
        w' = stopOnErrors (updateState w1 rs he)) \<or>
     (\<exists>err. c = Cycle_rejected err \<and> enabledTasks w \<noteq> [] \<and>
        executeTasks w (enabledTasks w) [] False = Some (Inl err, w'))"
  by (auto simp: runEnabledTasks_def Let_def split: if_splits option.splits sum.splits)

lemma runTasks_cases:
  assumes "runTasks w = Some (c, w')"
  shows "(\<exists>mh st. c = Market_closed st \<and> respectMarketHours (config w) \<and> marketHours (config w) = Some mh \<and>
            isMarketOpen mh (clock w (reads w)) = Some st \<and> \<not> isOpen st \<and>
            w' = emit (cycleStart w) \<lparr>type = event_market_closed, timestamp = clock w (reads w), data = data_status st\<rparr>)
       \<or> (c = No_enabled_tasks \<and> w' = cycleStart w \<and> enabledTasks w = [])
       \<or> (\<exists>rs he w1. c = Completed rs \<and> enabledTasks w \<noteq> [] \<and>
            executeTasks (cycleStart w) (enabledTasks w) [] False = Some (Inr (rs, he), w1) \<and>
            w' = stopOnErrors (updateState w1 rs he))
       \<or> (\<exists>err. c = Cycle_rejected err \<and> enabledTasks w \<noteq> [] \<and>
            executeTasks (cycleStart w) (enabledTasks w) [] False = Some (Inl err, w'))"
  using assms runEnabledTasks_cases[of "cycleStart w" c w']
  by (auto simp: runTasks_unfold split: option.splits if_splits)

lemma runTasks_Completed:
  assumes "runTasks w = Some (Completed rs, w')"
  shows "\<exists>he w1. enabledTasks w \<noteq> [] \<and>
            executeTasks (cycleStart w) (enabledTasks w) [] False = Some (Inr (rs, he), w1) \<and>
            w' = stopOnErrors (updateState w1 rs he)"
  using runTasks_cases[OF assms] by auto

subsection \<open>The events of a cycle\<close>

lemma emits_refl: "emits w w []"
  by (simp add: emits_def deliveries_def)

lemma emits_trans: "emits w w1 a \<Longrightarrow> emits w1 w2 b \<Longrightarrow> emits w w2 (a @ b)"
  by (simp add: emits_def deliveries_def)

lemma emits_emit: "emits w (emit w ev) [ev]"
  by (simp add: emits_def deliveries_def)

lemma emits_cong:
  "emitted w1 = emitted w \<Longrightarrow> delivered w1 = delivered w \<Longrightarrow> eventHandlers w1 = eventHandlers w \<Longrightarrow>
   emits w1 w' evs \<Longrightarrow> emits w w' evs"
  by (simp add: emits_def)

lemma emits_cycleStart: "emits (cycleStart w) w' evs \<Longrightarrow> emits w w' evs"
  by (simp add: emits_def)

lemma skipsTask_emits: "skipsTask w t = Some (b, w') \<Longrightarrow> emits w w' []"
  by (auto simp: emits_def deliveries_def skipsTask_def new_Date_def Let_def split: option.splits prod.splits if_splits)

lemma executeTask_emits:
  "executeTask w t = Some (Inr r, w') \<Longrightarrow>
     emits w w' [\<lparr>type = event_task_start, timestamp = startTime r, data = data_taskId_taskName (id' t) (name t)\<rparr>,
                 \<lparr>type = (if success r then event_task_complete else event_task_error), timestamp = endTime r, data = data_result r\<rparr>]"
  by (auto simp: emits_def deliveries_def executeTask_def new_Date_def Let_def
      split: option.splits prod.splits settled.splits sum.splits)

lemma executeTask_rejected_emits:
  "executeTask w t = Some (Inl err, w') \<Longrightarrow>
     emits w w' [\<lparr>type = event_task_start, timestamp = clock w (reads w),
                  data = data_taskId_taskName (id' t) (name t)\<rparr>]"
  by (auto simp: emits_def deliveries_def executeTask_def new_Date_def Let_def
      split: option.splits prod.splits settled.splits sum.splits)

lemma executeTask_task_events:
  assumes "executeTask w t = Some (x, w')"
  shows "\<exists>evs. emits w w' evs \<and> list_all task_event evs"
proof (cases x)
  case (Inl err)
  with assms have "executeTask w t = Some (Inl err, w')" by simp
  from executeTask_rejected_emits[OF this] show ?thesis
    by (intro exI[of _ "[\<lparr>type = event_task_start, timestamp = clock w (reads w),
                  data = data_taskId_taskName (id' t) (name t)\<rparr>]"]) (simp add: task_event_def)
next
  case (Inr r)
  with assms have "executeTask w t = Some (Inr r, w')" by simp
  from executeTask_emits[OF this] show ?thesis
    by (intro exI[of _ "[\<lparr>type = event_task_start, timestamp = startTime r, data = data_taskId_taskName (id' t) (name t)\<rparr>,
                 \<lparr>type = (if success r then event_task_complete else event_task_error), timestamp = endTime r, data = data_result r\<rparr>]"])
       (simp add: task_event_def)
qed

lemma executeTasks_emits:
  "executeTasks w ts rs he = Some (x, w') \<Longrightarrow>
     \<exists>evs. emits w w' evs \<and> list_all task_event evs"
proof (induction ts arbitrary: w rs he)
  case Nil
  then show ?case by (auto intro: exI[of _ "[]"] simp: emits_refl)
next
  case (Cons t ts)
  from Cons.prems obtain skip w1 where sk: "skipsTask w t = Some (skip, w1)"
    by (auto split: option.splits)
  note e1 = skipsTask_emits[OF sk]
  show ?case
  proof (cases skip)
    case True
    with Cons.prems sk have "executeTasks w1 ts rs he = Some (x, w')" by simp
    from Cons.IH[OF this] obtain evs where "emits w1 w' evs" "list_all task_event evs" by blast
    with emits_trans[OF e1] show ?thesis by fastforce
  next
    case False
    with Cons.prems sk obtain y w2 where ex: "executeTask w1 t = Some (y, w2)"
      by (auto split: option.splits)
    from executeTask_task_events[OF ex] obtain evs1 where
      ev1: "emits w1 w2 evs1" "list_all task_event evs1" by blast
    have "\<exists>evs. emits w2 w' evs \<and> list_all task_event evs"
    proof (cases y)
      case (Inl err)
      with Cons.prems sk False ex have "w' = w2" by simp
      then show ?thesis by (auto intro: exI[of _ "[]"] simp: emits_refl)
    next
      case (Inr r)
      with Cons.prems sk False ex
      have "executeTasks w2 ts (rs @ [r]) (if \<not> success r then True else he) = Some (x, w')"
        by simp
      from Cons.IH[OF this] show ?thesis .
    qed
    then obtain evs where ev: "emits w2 w' evs" "list_all task_event evs" by blast
    have "emits w w' (([] @ evs1) @ evs)"
      by (rule emits_trans[OF emits_trans[OF e1 ev1(1)] ev(1)])
    moreover have "list_all task_event (([] @ evs1) @ evs)"
      using ev1(2) ev(2) by simp
    ultimately show ?thesis by blast
  qed
qed

lemma stop_emits:
  "\<exists>evs. emits w (stop w) evs \<and> list_all (\<lambda>ev. type ev = event_stop) evs"
proof (cases "isRunning (state w)")
  case True
  then have "emits w (stop w) [\<lparr>type = event_stop, timestamp = clock w (reads w), data = no_data\<rparr>]"
    by (simp add: emits_def deliveries_def stop_def new_Date_def Let_def)
  then show ?thesis by force
next
  case False
  then have "emits w (stop w) []" by (simp add: stop_def emits_refl)
  then show ?thesis by force
qed

lemma updateState_frame:
  "config (updateState w rs he) = config w \<and> tasks (updateState w rs he) = tasks w \<and>
   env (updateState w rs he) = env w \<and> eventHandlers (updateState w rs he) = eventHandlers w \<and>
   handlerCalls (updateState w rs he) = handlerCalls w \<and> clock (updateState w rs he) = clock w \<and>
   intervalId (updateState w rs he) = intervalId w \<and> emitted (updateState w rs he) = emitted w \<and>
   delivered (updateState w rs he) = delivered w \<and>
   isRunning (state (updateState w rs he)) = isRunning (state w)"
  by (simp add: updateState_def Let_def)

lemma stopOnErrors_frame:
  "config (stopOnErrors w) = config w \<and>
   env (stopOnErrors w) = env w \<and> eventHandlers (stopOnErrors w) = eventHandlers w \<and>
   handlerCalls (stopOnErrors w) = handlerCalls w \<and> clock (stopOnErrors w) = clock w \<and>
   totalRuns (state (stopOnErrors w)) = totalRuns (state w) \<and>
   consecutiveErrors (state (stopOnErrors w)) = consecutiveErrors (state w) \<and>
   history (state (stopOnErrors w)) = history (state w)"
  by (simp add: stopOnErrors_def stop_def new_Date_def Let_def)

lemma stopOnErrors_trips:
  assumes "consecutiveErrors (state w) \<ge> maxErrors w"
  shows "\<not> isRunning (state (stopOnErrors w))"
    and "(\<not> isRunning (state w) \<longrightarrow> intervalId w = None) \<Longrightarrow> intervalId (stopOnErrors w) = None"
    and "\<exists>evs t. emits w (stopOnErrors w) evs \<and>
           filter (\<lambda>ev. type ev = event_error) evs =
             [\<lparr>type = event_error, timestamp = t, data = data_reason ''max_consecutive_errors''\<rparr>]"
proof -
  have u: "stopOnErrors w =
      emit ((stop w)\<lparr>reads := reads (stop w) + 1\<rparr>)
        \<lparr>type = event_error, timestamp = clock (stop w) (reads (stop w)), data = data_reason ''max_consecutive_errors''\<rparr>"
    using assms by (simp add: stopOnErrors_def new_Date_def Let_def)
  show "\<not> isRunning (state (stopOnErrors w))"
    unfolding u using stop_frame[of w] by simp
  show "(\<not> isRunning (state w) \<longrightarrow> intervalId w = None) \<Longrightarrow> intervalId (stopOnErrors w) = None"
    unfolding u using stop_timer[of w] by simp
  obtain evs where s: "emits w (stop w) evs" "list_all (\<lambda>ev. type ev = event_stop) evs"
    using stop_emits by blast
  let ?ev = "\<lparr>type = event_error, timestamp = clock (stop w) (reads (stop w)), data = data_reason ''max_consecutive_errors''\<rparr>"
  have "emits (stop w) (stopOnErrors w) [?ev]"
    unfolding u by (simp add: emits_def deliveries_def)
  from emits_trans[OF s(1) this] have "emits w (stopOnErrors w) (evs @ [?ev])" .
  moreover have "filter (\<lambda>ev. type ev = event_error) (evs @ [?ev]) = [?ev]"
    using s(2) by (induction evs) auto
  ultimately show "\<exists>evs t. emits w (stopOnErrors w) evs \<and>
           filter (\<lambda>ev. type ev = event_error) evs =
             [\<lparr>type = event_error, timestamp = t, data = data_reason ''max_consecutive_errors''\<rparr>]" by blast
qed

lemma stopOnErrors_quiet:
  assumes "\<not> consecutiveErrors (state w) \<ge> maxErrors w"
  shows "stopOnErrors w = w"
  using assms by (simp add: stopOnErrors_def)

subsection \<open>The counters\<close>

lemma runTasks_counters:
  assumes "runTasks w = Some (c, w')"
  shows "config w' = config w \<and> eventHandlers w' = eventHandlers w \<and>
     handlerCalls w' = handlerCalls w \<and> clock w' = clock w \<and>
     (case c of
        Completed rs \<Rightarrow>
          totalRuns (state w') = totalRuns (state w) + 1 \<and>
          history (state w') = slice_last (history (state w) @ rs) 100 \<and>
          consecutiveErrors (state w') = (if list_all success rs then 0 else consecutiveErrors (state w) + 1)
      | Cycle_rejected err \<Rightarrow>
          totalRuns (state w') = totalRuns (state w) \<and>
          history (state w') = history (state w) \<and>
          consecutiveErrors (state w') = consecutiveErrors (state w) \<and>
          intervalId w' = intervalId w \<and> isRunning (state w') = isRunning (state w)
      | _ \<Rightarrow>
          totalRuns (state w') = totalRuns (state w) \<and>
          history (state w') = history (state w) \<and>
          consecutiveErrors (state w') = consecutiveErrors (state w) \<and>
          env w' = env w \<and> intervalId w' = intervalId w \<and> isRunning (state w') = isRunning (state w))"
proof -
  consider
    (closed) st where "c = Market_closed st"
      "w' = emit (cycleStart w) \<lparr>type = event_market_closed, timestamp = clock w (reads w), data = data_status st\<rparr>"
  | (none) "c = No_enabled_tasks" "w' = cycleStart w"
  | (completed) rs he w1 where "c = Completed rs"
      "executeTasks (cycleStart w) (enabledTasks w) [] False = Some (Inr (rs, he), w1)"
      "w' = stopOnErrors (updateState w1 rs he)"
  | (rejected) err where "c = Cycle_rejected err"
      "executeTasks (cycleStart w) (enabledTasks w) [] False = Some (Inl err, w')"
    using runTasks_cases[OF assms] by blast
  then show ?thesis
  proof cases
    case closed
    then show ?thesis by simp
  next
    case none
    then show ?thesis by simp
  next
    case completed
    from executeTasks_frame[OF completed(2)]
    have f: "state w1 = state (cycleStart w)" "config w1 = config w"
      "eventHandlers w1 = eventHandlers w" "handlerCalls w1 = handlerCalls w" "clock w1 = clock w"
      by simp_all
    from executeTasks_results[OF completed(2)]
    have he: "he = (\<not> list_all success rs)" by auto
    show ?thesis
      using completed(1,3) f he
        stopOnErrors_frame[of "updateState w1 rs he"] updateState_frame[of w1 rs he]
      by (simp add: updateState_consecutiveErrors updateState_history updateState_totalRuns)
  next
    case rejected
    from executeTasks_frame[OF rejected(2)]
    have f: "state w' = state (cycleStart w)" "config w' = config w" "intervalId w' = intervalId w"
      "eventHandlers w' = eventHandlers w" "handlerCalls w' = handlerCalls w" "clock w' = clock w"
      by simp_all
    show ?thesis using rejected(1) f by simp
  qed
qed



text \<open>
  A cycle that has not awaited leaves \<open>isRunning\<close> as it is, unless the limit of
  consecutive errors is 0 or less.
\<close>

lemma runTasks_not_awaited:
  assumes "runTasks w = Some (c, w')" "\<not> awaited c" "0 < maxErrors w"
  shows "isRunning (state w') = isRunning (state w)"
proof -
  consider
    (closed) st where "c = Market_closed st"
  | (none) "c = No_enabled_tasks"
  | (completed) he w1 where "c = Completed []"
      "executeTasks (cycleStart w) (enabledTasks w) [] False = Some (Inr ([], he), w1)"
      "w' = stopOnErrors (updateState w1 [] he)"
    using runTasks_cases[OF assms(1)] assms(2) by (auto simp: awaited_def)
  then show ?thesis
  proof cases
    case closed
    with runTasks_counters[OF assms(1)] show ?thesis by simp
  next
    case none
    with runTasks_counters[OF assms(1)] show ?thesis by simp
  next
    case completed
    from executeTasks_frame[OF completed(2)]
    have f: "state w1 = state (cycleStart w)" "config w1 = config w" by simp_all
    from executeTasks_results[OF completed(2)] have he: "\<not> he" by auto
    let ?u = "updateState w1 [] he"
    have "consecutiveErrors (state ?u) = 0"
      using he by (simp add: updateState_consecutiveErrors)
    moreover have "maxErrors ?u = maxErrors w"
      using updateState_frame[of w1 "[]" he] f(2) by (simp add: maxErrors_def)
    ultimately have "stopOnErrors ?u = ?u"
      using assms(3) by (intro stopOnErrors_quiet) simp
    with completed(3) updateState_frame[of w1 "[]" he] f(1) show ?thesis by simp
  qed
qed

text \<open>
  What \<open>start\<close> leaves: the state it found, when the scheduler was running; or, from the
  state \<open>w0\<close> with \<open>isRunning\<close> set and the \<open>start\<close> event emitted, that state with the
  timer armed, or the end of the cycle run with the timer armed, or the end of a cycle
  that run without an \<open>await\<close>, with the timer armed after it.
\<close>

lemma start_cases:
  assumes "start w = Some w'"
  shows "w' = w \<or>
     (\<exists>w0 ms. state w0 = (state w)\<lparr>isRunning := True\<rparr> \<and> config w0 = config w \<and>
        intervalId w0 = intervalId w \<and>
        (w' = w0\<lparr>intervalId := Some ms\<rparr> \<or>
         (\<exists>c. runTasks (w0\<lparr>intervalId := Some ms\<rparr>) = Some (c, w')) \<or>
         (\<exists>c w1. \<not> awaited c \<and> runTasks w0 = Some (c, w1) \<and> w' = w1\<lparr>intervalId := Some ms\<rparr>)))"
proof (cases "isRunning (state w)")
  case True
  with assms show ?thesis by (simp add: start_def)
next
  case False
  define w1 where "w1 = w\<lparr>state := (state w)\<lparr>isRunning := True\<rparr>\<rparr>"
  define w0 where "w0 = emit (snd (new_Date w1))
      \<lparr>type = event_start, timestamp = fst (new_Date w1), data = no_data\<rparr>"
  define ms where "ms = intervalMinutes (config w0) * 60 * 1000"
  have s: "start w =
     (if runOnStart (config w0) = Some True
      then (case runTasks w0 of
              None \<Rightarrow> None
            | Some (c, w1) \<Rightarrow>
                if awaited c then map_option snd (runTasks (w0\<lparr>intervalId := Some ms\<rparr>))
                else Some (w1\<lparr>intervalId := Some ms\<rparr>))
      else Some (w0\<lparr>intervalId := Some ms\<rparr>))"
    unfolding start_def Let_def case_prod_beta w0_def w1_def ms_def using False by simp
  have f: "state w0 = (state w)\<lparr>isRunning := True\<rparr> \<and> config w0 = config w \<and>
        intervalId w0 = intervalId w"
    by (simp add: w0_def w1_def new_Date_def)
  have "w' = w0\<lparr>intervalId := Some ms\<rparr> \<or>
         (\<exists>c. runTasks (w0\<lparr>intervalId := Some ms\<rparr>) = Some (c, w')) \<or>
         (\<exists>c w1. \<not> awaited c \<and> runTasks w0 = Some (c, w1) \<and> w' = w1\<lparr>intervalId := Some ms\<rparr>)"
    using assms unfolding s by (auto split: if_splits option.splits)
  with f show ?thesis by blast
qed




lemma perform_other_consecutiveErrors:
  assumes "perform oper w = Some w'" "oper \<noteq> Op_start" "oper \<noteq> Op_timerTick" "oper \<noteq> Op_runNow"
  shows "consecutiveErrors (state w') = consecutiveErrors (state w)"
  using assms stop_frame[of w]
  by (cases oper) (auto simp: registerTask_def unregisterTask_def clearHistory_def on_def off_def
      enableTask_def disableTask_def new_Date_def Let_def)

subsection \<open>The market hours at the readings of the clock\<close>

lemma isMarketOpen_before_open:
  "isMarketOpen getUSMarketHoursConfig before_open =
     Some \<lparr>isOpen = False, currentTime = Date 1735804800000,
           closedReason = Some ''Before market open (opens at 09:30)'',
           nextOpenTime = Some (Date 1735896600000), nextCloseTime = None\<rparr>"
  by code_simp

lemma isMarketOpen_during_session:
  "isMarketOpen getUSMarketHoursConfig during_session =
     Some \<lparr>isOpen = True, currentTime = Date 1735812000000, closedReason = None,
           nextOpenTime = None, nextCloseTime = Some (Date 1735833600000)\<rparr>"
  by code_simp

lemma isMarketOpen_just_before_close:
  "isMarketOpen getUSMarketHoursConfig just_before_close =
     Some \<lparr>isOpen = True, currentTime = Date 1735832699999, closedReason = None,
           nextOpenTime = None, nextCloseTime = Some (Date 1735833600000)\<rparr>"
  by code_simp

lemma isMarketOpen_at_effective_close:
  "isMarketOpen getUSMarketHoursConfig at_effective_close =
     Some \<lparr>isOpen = False, currentTime = Date 1735832700000,
           closedReason = Some ''After market close (closed at 16:00)'',
           nextOpenTime = Some (Date 1735896600000), nextCloseTime = None\<rparr>"
  by code_simp

lemma isMarketOpen_next_morning:
  "isMarketOpen getUSMarketHoursConfig next_morning =
     Some \<lparr>isOpen = True, currentTime = Date 1735898400000, closedReason = None,
           nextOpenTime = None, nextCloseTime = Some (Date 1735920000000)\<rparr>"
  by code_simp

lemmas scheduler_defs =
  registerTask_def newScheduler_def new_Date_def emit_no_handlers applyCalls_def applyCall_def Let_def
  runTasks_def runEnabledTasks_def
  enabledTasks_def Array_sort_def priority_order_def priorityOrZero_def skipsTask_def executeTask_def updateState_def
  stopOnErrors_def maxErrors_def stop_def slice_last_def start_def awaited_def timerTick_def runNow_def
  quiet_handlers_def String_thrown_def template_literal_def
  getTime_def number_plus_def number_minus_def Date_of_number_def TimeClip_def maxTime_def

lemma demo_cycle:
  "\<exists>rs w'. runTasks demo_scheduler = Some (Completed rs, w') \<and>
      map taskId rs = [''demo-task-a'', ''demo-task-b''] \<and> list_all success rs \<and> env w' = 2 \<and>
      consecutiveErrors (state w') = 0"
  by (simp add: demo_scheduler_def demo_config_def demo_task_A_def demo_task_B_def scheduler_defs
      isMarketOpen_during_session[unfolded during_session_def] during_session_def)

lemma failing_cycle:
  "\<exists>w rs w'. performAll [Op_registerTask demo_task_failing, Op_start]
        (newScheduler (demo_config\<lparr>maxConsecutiveErrors := Some 1\<rparr>) (\<lambda>n. during_session)
           quiet_handlers 0) = Some w \<and>
      isRunning (state w) \<and>
      runTasks w = Some (Completed rs, w') \<and>
      map success rs = [False] \<and>
      consecutiveErrors (state w') = 1 \<and> maxErrors w = 1 \<and>
      \<not> isRunning (state w') \<and> intervalId w' = None"
  by (simp add: demo_config_def demo_task_failing_def scheduler_defs
      isMarketOpen_during_session[unfolded during_session_def] during_session_def)

subsection \<open>The timer\<close>

lemma stop_keeps_timer_off: "intervalId w = None \<Longrightarrow> intervalId (stop w) = None"
  by (simp add: stop_def new_Date_def Let_def)

lemma stop_timer_inv: "timer_cancelled_when_stopped (stop w) = timer_cancelled_when_stopped w"
  by (simp add: timer_cancelled_when_stopped_def stop_def new_Date_def Let_def)

lemma stopOnErrors_timer:
  "intervalId w = None \<Longrightarrow> intervalId (stopOnErrors w) = None"
  "timer_cancelled_when_stopped w \<Longrightarrow> timer_cancelled_when_stopped (stopOnErrors w)"
  by (auto simp: timer_cancelled_when_stopped_def stopOnErrors_def stop_def new_Date_def Let_def
      split: if_splits)

lemma runTasks_timer:
  assumes "runTasks w = Some (c, w')"
  shows "intervalId w = None \<Longrightarrow> intervalId w' = None"
    and "timer_cancelled_when_stopped w \<Longrightarrow> timer_cancelled_when_stopped w'"
proof -
  consider
    (closed) st where "c = Market_closed st"
      "w' = emit (cycleStart w) \<lparr>type = event_market_closed, timestamp = clock w (reads w), data = data_status st\<rparr>"
  | (none) "c = No_enabled_tasks" "w' = cycleStart w"
  | (completed) rs he w1 where "c = Completed rs"
      "executeTasks (cycleStart w) (enabledTasks w) [] False = Some (Inr (rs, he), w1)"
      "w' = stopOnErrors (updateState w1 rs he)"
  | (rejected) err where "c = Cycle_rejected err"
      "executeTasks (cycleStart w) (enabledTasks w) [] False = Some (Inl err, w')"
    using runTasks_cases[OF assms] by blast
  then have "(intervalId w = None \<longrightarrow> intervalId w' = None) \<and>
      (timer_cancelled_when_stopped w \<longrightarrow> timer_cancelled_when_stopped w')"
  proof cases
    case closed
    then show ?thesis by (simp add: timer_cancelled_when_stopped_def)
  next
    case none
    then show ?thesis by (simp add: timer_cancelled_when_stopped_def)
  next
    case completed
    from executeTasks_frame[OF completed(2)]
    have f: "isRunning (state w1) = isRunning (state w)" "intervalId w1 = intervalId w" by simp_all
    let ?u = "updateState w1 rs he"
    have u: "isRunning (state ?u) = isRunning (state w)" "intervalId ?u = intervalId w"
      using updateState_frame[of w1 rs he] f by simp_all
    show ?thesis
      unfolding completed(3) using stopOnErrors_timer[of ?u] u
      by (simp add: timer_cancelled_when_stopped_def)
  next
    case rejected
    from executeTasks_frame[OF rejected(2)]
    have "isRunning (state w') = isRunning (state w)" "intervalId w' = intervalId w" by simp_all
    then show ?thesis by (simp add: timer_cancelled_when_stopped_def)
  qed
  then show "intervalId w = None \<Longrightarrow> intervalId w' = None"
    and "timer_cancelled_when_stopped w \<Longrightarrow> timer_cancelled_when_stopped w'" by blast+
qed

text \<open>
  With a limit of consecutive errors of at least 1, the invariant holds in every state a
  new scheduler can reach: \<open>start\<close> keeps it because a first cycle that has not awaited
  does not stop the scheduler.
\<close>

lemma perform_timer_inv:
  assumes "perform oper w = Some w'" "timer_cancelled_when_stopped w" "0 < maxErrors w"
  shows "timer_cancelled_when_stopped w' \<and> config w' = config w"
proof (cases oper)
  case Op_start
  with assms(1) have "start w = Some w'" by simp
  from start_cases[OF this] consider "w' = w"
    | w0 ms where "state w0 = (state w)\<lparr>isRunning := True\<rparr>" "config w0 = config w"
        "w' = w0\<lparr>intervalId := Some ms\<rparr>"
    | w0 ms c where "state w0 = (state w)\<lparr>isRunning := True\<rparr>" "config w0 = config w"
        "runTasks (w0\<lparr>intervalId := Some ms\<rparr>) = Some (c, w')"
    | w0 ms c w1 where "state w0 = (state w)\<lparr>isRunning := True\<rparr>" "config w0 = config w"
        "\<not> awaited c" "runTasks w0 = Some (c, w1)" "w' = w1\<lparr>intervalId := Some ms\<rparr>"
    by blast
  then show ?thesis
  proof cases
    case 1
    with assms(2) show ?thesis by simp
  next
    case 2
    then show ?thesis by (simp add: timer_cancelled_when_stopped_def)
  next
    case 3
    from 3(1) have "timer_cancelled_when_stopped (w0\<lparr>intervalId := Some ms\<rparr>)"
      by (simp add: timer_cancelled_when_stopped_def)
    from runTasks_timer(2)[OF 3(3) this] runTasks_counters[OF 3(3)] 3(2) show ?thesis by simp
  next
    case 4
    from 4(2) assms(3) have "0 < maxErrors w0" by (simp add: maxErrors_def)
    from runTasks_not_awaited[OF 4(4) 4(3) this] 4(1) have "isRunning (state w1)" by simp
    with 4(5) runTasks_counters[OF 4(4)] 4(2) show ?thesis
      by (simp add: timer_cancelled_when_stopped_def)
  qed
next
  case Op_timerTick
  with assms show ?thesis
    by (auto simp: timerTick_def split: if_splits dest: runTasks_timer(2) runTasks_counters)
next
  case Op_runNow
  with assms show ?thesis
    by (auto simp: runNow_def dest: runTasks_timer(2) runTasks_counters)
next
  case Op_stop
  with assms stop_frame[of w] show ?thesis by (auto simp: stop_timer_inv)
qed (use assms in \<open>auto simp: timer_cancelled_when_stopped_def registerTask_def unregisterTask_def
      clearHistory_def on_def off_def enableTask_def disableTask_def new_Date_def Let_def\<close>)

lemma performAll_timer_inv:
  "performAll opers w = Some w' \<Longrightarrow> timer_cancelled_when_stopped w \<Longrightarrow> 0 < maxErrors w \<Longrightarrow>
     timer_cancelled_when_stopped w' \<and> config w' = config w"
proof (induction opers arbitrary: w)
  case Nil
  then show ?case by simp
next
  case (Cons oper opers)
  from Cons.prems(1) obtain w1 where p: "perform oper w = Some w1" "performAll opers w1 = Some w'"
    by (auto simp: bind_eq_Some_conv)
  from perform_timer_inv[OF p(1) Cons.prems(2,3)]
  have 1: "timer_cancelled_when_stopped w1" "config w1 = config w" by simp_all
  from 1(2) Cons.prems(3) have "0 < maxErrors w1" by (simp add: maxErrors_def)
  from Cons.IH[OF p(2) 1(1) this] 1(2) show ?case by simp
qed

lemma perform_keeps_timer_off:
  assumes "perform oper w = Some w'" "oper \<noteq> Op_start" "intervalId w = None"
  shows "intervalId w' = None"
  using assms
  by (cases oper)
     (auto simp: timerTick_def runNow_def registerTask_def unregisterTask_def stop_keeps_timer_off
        clearHistory_def on_def off_def enableTask_def disableTask_def new_Date_def Let_def
        dest: runTasks_timer(1))

lemma performAll_keeps_timer_off:
  "performAll opers w = Some w' \<Longrightarrow> Op_start \<notin> set opers \<Longrightarrow> intervalId w = None \<Longrightarrow>
     intervalId w' = None"
proof (induction opers arbitrary: w)
  case Nil
  then show ?case by simp
next
  case (Cons oper opers)
  from Cons.prems(1) obtain w1 where p: "perform oper w = Some w1" "performAll opers w1 = Some w'"
    by (auto simp: bind_eq_Some_conv)
  from Cons.prems(2) have "oper \<noteq> Op_start" "Op_start \<notin> set opers" by auto
  with perform_keeps_timer_off[OF p(1) _ Cons.prems(3)] Cons.IH[OF p(2)] show ?case by blast
qed

text \<open>
  The circuit breaker, where the invariant holds: a cycle that ends with the count of
  consecutive errors at the limit leaves the scheduler stopped and the timer cancelled,
  and so it stays until the next \<open>start\<close>; the cycle emits one \<open>error\<close> event.
\<close>

lemma breaker_stops_scheduler:
  assumes inv: "timer_cancelled_when_stopped w"
    and cycle: "runTasks w = Some (Completed results, w')"
    and limit: "consecutiveErrors (state w') \<ge> maxErrors w"
  shows "\<not> isRunning (state w') \<and> intervalId w' = None \<and> timerTick w' = Some w' \<and>
         (\<exists>events t. emits w w' events \<and>
            filter (\<lambda>ev. type ev = event_error) events =
              [\<lparr>type = event_error, timestamp = t, data = data_reason ''max_consecutive_errors''\<rparr>]) \<and>
         (\<forall>later w''. Op_start \<notin> set later \<and> performAll later w' = Some w'' \<longrightarrow>
            intervalId w'' = None \<and> timerTick w'' = Some w'')"
proof -
  from runTasks_Completed[OF cycle] obtain he w1 where
    ex: "executeTasks (cycleStart w) (enabledTasks w) [] False = Some (Inr (results, he), w1)"
    and w': "w' = stopOnErrors (updateState w1 results he)" by blast
  let ?u = "updateState w1 results he"
  from executeTasks_frame[OF ex]
  have f: "isRunning (state w1) = isRunning (state w)" "intervalId w1 = intervalId w" "config w1 = config w"
    by simp_all
  have u: "isRunning (state ?u) = isRunning (state w)" "intervalId ?u = intervalId w" "config ?u = config w"
    using updateState_frame[of w1 results he] f by simp_all
  have ce: "consecutiveErrors (state ?u) = consecutiveErrors (state w')"
    using stopOnErrors_frame[of ?u] w' by simp
  have trip: "consecutiveErrors (state ?u) \<ge> maxErrors ?u"
    using limit ce u(3) by (simp add: maxErrors_def)
  have a: "\<not> isRunning (state w')"
    unfolding w' by (rule stopOnErrors_trips(1)[OF trip])
  have b: "intervalId w' = None"
    unfolding w' using inv u
    by (intro stopOnErrors_trips(2)[OF trip]) (simp add: timer_cancelled_when_stopped_def split: if_splits)
  from executeTasks_emits[OF ex] obtain evs1 where
    e1: "emits (cycleStart w) w1 evs1" "list_all task_event evs1" by blast
  from stopOnErrors_trips(3)[OF trip] obtain evs2 t where
    e2: "emits ?u w' evs2"
    "filter (\<lambda>ev. type ev = event_error) evs2 =
       [\<lparr>type = event_error, timestamp = t, data = data_reason ''max_consecutive_errors''\<rparr>]"
    unfolding w' by blast
  have e2': "emits w1 w' evs2"
    by (rule emits_cong[OF _ _ _ e2(1)]) (simp_all add: updateState_frame)
  have e: "emits w w' (evs1 @ evs2)"
    by (rule emits_cycleStart[OF emits_trans[OF e1(1) e2']])
  have "filter (\<lambda>ev. type ev = event_error) evs1 = []"
    using e1(2) by (induction evs1) (auto simp: task_event_def)
  with e2(2) have c: "filter (\<lambda>ev. type ev = event_error) (evs1 @ evs2) =
       [\<lparr>type = event_error, timestamp = t, data = data_reason ''max_consecutive_errors''\<rparr>]"
    by simp
  have d: "\<forall>later w''. Op_start \<notin> set later \<and> performAll later w' = Some w'' \<longrightarrow>
            intervalId w'' = None \<and> timerTick w'' = Some w''"
    using performAll_keeps_timer_off[OF _ _ b] by (auto simp: timerTick_def)
  from a b c d e show ?thesis by (auto simp: timerTick_def)
qed

lemma breaker_stops_reachable_scheduler:
  assumes reach: "performAll opers (newScheduler cfg clk calls e) = Some w"
    and positive: "0 < (case maxConsecutiveErrors cfg of None \<Rightarrow> 10 | Some m \<Rightarrow> m)"
    and cycle: "runTasks w = Some (Completed results, w')"
    and limit: "consecutiveErrors (state w') \<ge> maxErrors w"
  shows "\<not> isRunning (state w') \<and> intervalId w' = None \<and> timerTick w' = Some w' \<and>
         (\<exists>events t. emits w w' events \<and>
            filter (\<lambda>ev. type ev = event_error) events =
              [\<lparr>type = event_error, timestamp = t, data = data_reason ''max_consecutive_errors''\<rparr>]) \<and>
         (\<forall>later w''. Op_start \<notin> set later \<and> performAll later w' = Some w'' \<longrightarrow>
            intervalId w'' = None \<and> timerTick w'' = Some w'')"
proof -
  have "timer_cancelled_when_stopped (newScheduler cfg clk calls e)"
    by (simp add: timer_cancelled_when_stopped_def newScheduler_def)
  moreover have "0 < maxErrors (newScheduler cfg clk calls e)"
    using positive by (simp add: maxErrors_def newScheduler_def)
  ultimately have "timer_cancelled_when_stopped w"
    using performAll_timer_inv[OF reach] by simp
  from breaker_stops_scheduler[OF this cycle limit] show ?thesis .
qed

subsection \<open>The order of the selected tasks\<close>

lemma subseq_set: "subseq xs ys \<Longrightarrow> set xs \<subseteq> set ys"
  by (induction rule: list_emb.induct) auto


lemma set_insert_sorted: "set (insert_sorted compare x ys) = insert x (set ys)"
  by (induction ys) auto

lemma set_Array_sort: "set (Array_sort xs compare) = set xs"
  by (induction xs) (simp_all add: Array_sort_def set_insert_sorted)





subsection \<open>Cycles that come to an end\<close>

lemma executeTask_returns:
  "execute task (env w) \<noteq> None \<Longrightarrow> \<exists>r w'. executeTask w task = Some (r, w')"
  by (auto simp: executeTask_def new_Date_def Let_def
      split: option.splits prod.splits settled.splits sum.splits)

lemma skipsTask_returns:
  "(\<forall>mh n. marketHours (config w) = Some mh \<longrightarrow> isMarketOpen mh (clock w n) \<noteq> None) \<Longrightarrow>
     \<exists>b w'. skipsTask w task = Some (b, w')"
  by (auto simp: skipsTask_def new_Date_def Let_def split: option.splits)

lemma executeTasks_returns:
  assumes "\<forall>t\<in>set ts. \<forall>e. execute t e \<noteq> None"
    and "\<forall>mh n. marketHours (config w) = Some mh \<longrightarrow> isMarketOpen mh (clock w n) \<noteq> None"
  shows "\<exists>r. executeTasks w ts rs he = Some r"
  using assms
proof (induction ts arbitrary: w rs he)
  case Nil
  then show ?case by simp
next
  case (Cons t ts)
  from skipsTask_returns[OF Cons.prems(2)] obtain b w1 where sk: "skipsTask w t = Some (b, w1)" by blast
  from skipsTask_frame[OF sk] have c1: "config w1 = config w" "clock w1 = clock w" by simp_all
  show ?case
  proof (cases b)
    case True
    from Cons.IH[of w1 rs he] Cons.prems c1
    obtain res where "executeTasks w1 ts rs he = Some res" by auto
    with sk True show ?thesis by simp
  next
    case False
    from Cons.prems(1) have "execute t (env w1) \<noteq> None" by simp
    from executeTask_returns[OF this] obtain x w2 where ex: "executeTask w1 t = Some (x, w2)" by blast
    from executeTask_frame[OF ex] c1 have c2: "config w2 = config w" "clock w2 = clock w" by simp_all
    show ?thesis
    proof (cases x)
      case (Inl err)
      with sk False ex show ?thesis by simp
    next
      case (Inr r)
      from Cons.IH[of w2 "rs @ [r]" "if \<not> success r then True else he"] Cons.prems c2
      obtain res where "executeTasks w2 ts (rs @ [r]) (if \<not> success r then True else he) = Some res"
        by auto
      with sk False ex Inr show ?thesis by simp
    qed
  qed
qed

lemma runTasks_returns:
  assumes "\<forall>t\<in>set (enabledTasks w). \<forall>e. execute t e \<noteq> None"
    and "\<forall>mh n. marketHours (config w) = Some mh \<longrightarrow> isMarketOpen mh (clock w n) \<noteq> None"
  shows "\<exists>c w'. runTasks w = Some (c, w')"
proof -
  from executeTasks_returns[OF assms(1), of "cycleStart w" "[]" False] assms(2)
  obtain r where "executeTasks (cycleStart w) (enabledTasks w) [] False = Some r" by auto
  then have "\<exists>c w'. runEnabledTasks (cycleStart w) = Some (c, w')"
    by (cases r) (auto simp: runEnabledTasks_def Let_def split: sum.splits)
  then obtain c w' where r: "runEnabledTasks (cycleStart w) = Some (c, w')" by blast
  show ?thesis
  proof (cases "if respectMarketHours (config w) then marketHours (config w) else None")
    case None
    with r show ?thesis by (simp add: runTasks_unfold)
  next
    case (Some mh)
    then have "marketHours (config w) = Some mh" by (simp split: if_splits)
    with assms(2) obtain st where "isMarketOpen mh (clock w (reads w)) = Some st" by fastforce
    with Some r show ?thesis by (simp add: runTasks_unfold)
  qed
qed

subsection \<open>Enabling and disabling\<close>

lemma enabled_update_same: "enabled t \<Longrightarrow> t\<lparr>enabled := True\<rparr> = t"
  by (cases t) simp

lemma enableTask_disableTask:
  "tasks (enableTask (disableTask w k) k) =
     map (\<lambda>t. if id' t = k then t\<lparr>enabled := True\<rparr> else t) (tasks w)"
  by (simp add: enableTask_def disableTask_def comp_def cong: map_cong)

lemma enableTask_disableTask_restores:
  assumes "\<forall>t\<in>set (tasks w). id' t = k \<longrightarrow> enabled t"
  shows "enableTask (disableTask w k) k = w"
proof -
  have "map (\<lambda>t. if id' t = k then t\<lparr>enabled := True\<rparr> else t) (tasks w) = tasks w"
    using assms by (induction "tasks w") (auto simp: enabled_update_same map_idI)
  then have "tasks (enableTask (disableTask w k) k) = tasks w"
    by (simp add: enableTask_disableTask)
  then show ?thesis by (simp add: enableTask_def disableTask_def)
qed

subsection \<open>Thrown values that are absorbed\<close>

text \<open>
  When both conversions of the thrown value give a string, \<open>executeTask\<close> returns the
  failure result with that string and emits \<open>task_start\<close> and \<open>task_error\<close>: this covers
  an \<open>Error\<close>, a string, \<open>undefined\<close> and \<open>null\<close>. The cycle then comes to its end.
\<close>

lemma convertible_failure_is_absorbed:
  assumes "execute task (env w) = Some (Rejected err, e, calls)"
    and "String_thrown err = Inr message" "template_literal err = Inr line"
  shows "\<exists>r w'. executeTask w task = Some (Inr r, w') \<and> success r = False \<and>
           error r = Some message \<and> taskId r = id' task \<and> taskName r = name task \<and>
           emits w w'
             [\<lparr>type = event_task_start, timestamp = startTime r,
                data = data_taskId_taskName (id' task) (name task)\<rparr>,
              \<lparr>type = event_task_error, timestamp = endTime r, data = data_result r\<rparr>]"
proof -
  from assms obtain r w' where ex: "executeTask w task = Some (Inr r, w')"
    and r: "success r = False" "error r = Some message"
    by (auto simp: executeTask_def new_Date_def Let_def split: prod.splits)
  from executeTask_result[OF ex] executeTask_emits[OF ex] ex r show ?thesis by auto
qed

lemma convertible_values:
  "err \<noteq> Null_prototype_object \<Longrightarrow> (\<forall>description. err \<noteq> Symbol_value description) \<Longrightarrow>
     \<exists>message. String_thrown err = Inr message \<and> template_literal err = Inr message"
  by (cases err) (simp_all add: String_thrown_def template_literal_def)

section \<open>The claims about the scheduler and the orchestrator\<close>

text \<open>
  Claim C1, at the input where the code departs from it. The claim: when a cycle ends with
  the count of consecutive errors at \<open>maxConsecutiveErrors\<close>, the scheduler is stopped,
  its timer is cancelled and no cycle runs on the timer until the next \<open>start\<close>. The
  scheduler here has \<open>maxConsecutiveErrors = 0\<close>, \<open>runOnStart\<close> and one task that
  requires an open market, and \<open>start\<close> is called as the session closes: the first cycle
  finds the market open at 15:44:59.999, the check before the task finds it closed at
  15:45:00.000, and the cycle ends without having awaited anything, with a count of 0,
  which is the limit. It calls \<open>stop\<close> and emits the \<open>error\<close> event, all inside the call
  of \<open>runTasks\<close> in \<open>start\<close>; then \<open>start\<close> arms the timer. The scheduler is left with
  \<open>isRunning\<close> false and the timer armed; \<open>stop\<close> does nothing in this state, and the
  next tick of the timer runs a cycle, which executes the task. (\<open>breaker_stops_scheduler\<close>
  above shows that the claim holds of every cycle that starts where a stopped scheduler
  has no timer, and \<open>breaker_stops_reachable_scheduler\<close> that this is every cycle when
  \<open>maxConsecutiveErrors\<close> is at least 1.)
\<close>

theorem start_at_close_leaves_timer_armed:
  "\<exists>w w'.
      performAll [Op_registerTask gated_task, Op_start] closing_scheduler = Some w \<and>
      totalRuns (state w) = 1 \<and> consecutiveErrors (state w) = 0 \<and> maxErrors w = 0 \<and>
      map type (emitted w) = [event_task_start, event_start, event_stop, event_error] \<and>
      \<not> isRunning (state w) \<and> intervalId w = Some 900000 \<and> stop w = w \<and>
      timerTick w = Some w' \<and>
      totalRuns (state w') = 2 \<and> env w' = 1 \<and> map taskId (history (state w')) = [''gated''] \<and>
      \<not> isRunning (state w') \<and> intervalId w' = Some 900000"
  by (simp add: closing_scheduler_def closing_config_def closing_clock_def gated_task_def
      scheduler_defs isMarketOpen_just_before_close[unfolded just_before_close_def]
      isMarketOpen_at_effective_close[unfolded at_effective_close_def]
      isMarketOpen_next_morning[unfolded next_morning_def]
      just_before_close_def at_effective_close_def next_morning_def)

text \<open>
  Claim C2, at the input where the code departs from it. On Thursday 2025-01-02 (an open
  day, no holiday) at 08:00, before the open time 09:30 of the US market hours,
  \<open>isMarketOpen\<close> returns \<open>isOpen = false\<close> with the reason "Before market open (opens
  at 09:30)", and as \<open>nextOpenTime\<close> 09:30 of Friday 2025-01-03: \<open>getNextOpenTime\<close>
  starts from tomorrow whatever the time is. Today's open time, 2025-01-02 09:30, is
  still to come, and \<open>minutesUntilMarketOpen\<close> is 25 hours and 30 minutes where the
  market opens in 90 minutes.
\<close>

theorem next_open_time_skips_today:
  "getDay before_open = Some 4 \<and> formatDate before_open = ''2025-01-02'' \<and>
   \<not> isHoliday getUSMarketHoursConfig (formatDate before_open) \<and>
   minuteOfDay before_open = Some (8 * 60) \<and>
   minutesOf (openTime getUSMarketHoursConfig) = 9 * 60 + 30 \<and>
   isMarketOpen getUSMarketHoursConfig before_open =
     Some \<lparr>isOpen = False, currentTime = before_open,
           closedReason = Some ''Before market open (opens at 09:30)'',
           nextOpenTime = Some (Date 1735896600000), nextCloseTime = None\<rparr> \<and>
   formatDate (Date 1735896600000) = ''2025-01-03'' \<and>
   minuteOfDay (Date 1735896600000) = Some (9 * 60 + 30) \<and>
   setHours before_open 9 30 0 0 = Date 1735810200000 \<and>
   formatDate (Date 1735810200000) = ''2025-01-02'' \<and>
   minutesUntilMarketOpen getUSMarketHoursConfig before_open = Some (Minutes (25 * 60 + 30))"
  by code_simp

text \<open>
  Claim C3, as amended. For a well-formed config and a time on an open weekday that is no
  holiday: at the minute \<open>openTime + graceAfterOpen\<close> the market is open, provided that
  minute comes before \<open>closeTime - graceBeforeClose\<close>; at the minute
  \<open>closeTime - graceBeforeClose\<close> the market is closed, provided some later day within the
  range of \<open>Date\<close> is an open weekday and no holiday. In both cases \<open>isMarketOpen\<close>
  returns.
\<close>

theorem open_and_close_boundaries:
  assumes "wellFormedConfig cfg"
    and "Array_includes (openDays cfg) (getDay now)"
    and "\<not> isHoliday cfg (formatDate now)"
  shows "(minuteOfDay now = Some (effectiveOpenMinutes cfg) \<and>
          effectiveOpenMinutes cfg < effectiveCloseMinutes cfg \<longrightarrow>
            (\<exists>status. isMarketOpen cfg now = Some status \<and> isOpen status)) \<and>
         (minuteOfDay now = Some (effectiveCloseMinutes cfg) \<and> openDayAhead cfg now k \<longrightarrow>
            (\<exists>status. isMarketOpen cfg now = Some status \<and> \<not> isOpen status))"
proof (intro conjI impI)
  assume a: "minuteOfDay now = Some (effectiveOpenMinutes cfg) \<and>
          effectiveOpenMinutes cfg < effectiveCloseMinutes cfg"
  then have m: "minuteOfDay now = Some (effectiveOpenMinutes cfg)" by simp
  from isMarketOpen_on_open_day[OF assms m, of k] a
  obtain close where "isMarketOpen cfg now =
      Some \<lparr>isOpen = True, currentTime = now, closedReason = None,
            nextOpenTime = None, nextCloseTime = Some close\<rparr>" by auto
  then show "\<exists>status. isMarketOpen cfg now = Some status \<and> isOpen status" by simp
next
  assume a: "minuteOfDay now = Some (effectiveCloseMinutes cfg) \<and> openDayAhead cfg now k"
  then have m: "minuteOfDay now = Some (effectiveCloseMinutes cfg)"
    and d: "openDayAhead cfg now k" by simp_all
  note c = isMarketOpen_on_open_day[OF assms m, of k]
  show "\<exists>status. isMarketOpen cfg now = Some status \<and> \<not> isOpen status"
  proof (cases "effectiveCloseMinutes cfg < effectiveOpenMinutes cfg")
    case True
    with c d obtain r where "isMarketOpen cfg now =
        Some (closedStatus now (''Before market open (opens at '' @ openTime cfg @ '')'') (Date r))"
      by auto
    then show ?thesis by (simp add: closedStatus_def)
  next
    case False
    with c d obtain r where "isMarketOpen cfg now =
        Some (closedStatus now (''After market close (closed at '' @ closeTime cfg @ '')'') (Date r))"
      by auto
    then show ?thesis by (simp add: closedStatus_def)
  qed
qed

theorem open_and_close_boundaries_witness:
  "wellFormedConfig getUSMarketHoursConfig \<and>
   minuteOfDay at_effective_open = Some (effectiveOpenMinutes getUSMarketHoursConfig) \<and>
   effectiveOpenMinutes getUSMarketHoursConfig < effectiveCloseMinutes getUSMarketHoursConfig \<and>
   (\<exists>status. isMarketOpen getUSMarketHoursConfig at_effective_open = Some status \<and> isOpen status) \<and>
   minuteOfDay at_effective_close = Some (effectiveCloseMinutes getUSMarketHoursConfig) \<and>
   openDayAhead getUSMarketHoursConfig at_effective_close 1 \<and>
   (\<exists>status. isMarketOpen getUSMarketHoursConfig at_effective_close = Some status \<and> \<not> isOpen status)"
proof -
  have wf: "wellFormedConfig getUSMarketHoursConfig" by code_simp
  have o: "Array_includes (openDays getUSMarketHoursConfig) (getDay at_effective_open)"
    "\<not> isHoliday getUSMarketHoursConfig (formatDate at_effective_open)"
    "minuteOfDay at_effective_open = Some (effectiveOpenMinutes getUSMarketHoursConfig)"
    "effectiveOpenMinutes getUSMarketHoursConfig < effectiveCloseMinutes getUSMarketHoursConfig"
    by code_simp+
  have c: "Array_includes (openDays getUSMarketHoursConfig) (getDay at_effective_close)"
    "\<not> isHoliday getUSMarketHoursConfig (formatDate at_effective_close)"
    "minuteOfDay at_effective_close = Some (effectiveCloseMinutes getUSMarketHoursConfig)"
    "openDayAhead getUSMarketHoursConfig at_effective_close 1"
    by code_simp+
  from open_and_close_boundaries[OF wf o(1,2)] o(3,4)
  have 1: "\<exists>status. isMarketOpen getUSMarketHoursConfig at_effective_open = Some status \<and> isOpen status"
    by blast
  from open_and_close_boundaries[OF wf c(1,2), of 1] c(3,4)
  have 2: "\<exists>status. isMarketOpen getUSMarketHoursConfig at_effective_close = Some status \<and> \<not> isOpen status"
    by blast
  from wf o(3,4) 1 c(3,4) 2 show ?thesis by blast
qed

text \<open>
  The claim as it stands, for every well-formed config and every time, fails in two
  places. Where the grace periods leave no minute open: with both at 200 minutes the
  market is closed at 12:50, the minute \<open>openTime + graceAfterOpen\<close>. And at the end of
  the range of \<open>Date\<close>: at 15:45 of Friday 275760-09-12, the minute
  \<open>closeTime - graceBeforeClose\<close> of an open weekday, \<open>isMarketOpen\<close> returns nothing,
  since the next day is no \<open>Date\<close>.
\<close>

theorem boundaries_counterexample:
  "wellFormedConfig wide_grace_config \<and>
   Array_includes (openDays wide_grace_config) (getDay ten_to_one) \<and>
   \<not> isHoliday wide_grace_config (formatDate ten_to_one) \<and>
   minuteOfDay ten_to_one = Some (effectiveOpenMinutes wide_grace_config) \<and>
   map_option isOpen (isMarketOpen wide_grace_config ten_to_one) = Some False \<and>
   wellFormedConfig weekdays_config \<and>
   Array_includes (openDays weekdays_config) (getDay last_friday) \<and>
   \<not> isHoliday weekdays_config (formatDate last_friday) \<and>
   minuteOfDay last_friday = Some (effectiveCloseMinutes weekdays_config) \<and>
   isMarketOpen weekdays_config last_friday = None"
proof -
  have "wellFormedConfig wide_grace_config \<and>
   Array_includes (openDays wide_grace_config) (getDay ten_to_one) \<and>
   \<not> isHoliday wide_grace_config (formatDate ten_to_one) \<and>
   minuteOfDay ten_to_one = Some (effectiveOpenMinutes wide_grace_config) \<and>
   map_option isOpen (isMarketOpen wide_grace_config ten_to_one) = Some False"
    by code_simp
  with no_answer_on_the_last_friday show ?thesis by simp
qed

text \<open>
  Claim C4. A cycle (a timer tick or \<open>runNow\<close>) that finds \<open>respectMarketHours\<close> set, a
  \<open>marketHours\<close> config present and the market closed at the time it starts emits exactly
  one event, \<open>market_closed\<close> with the status, and returns: \<open>totalRuns\<close>,
  \<open>consecutiveErrors\<close> and \<open>history\<close> are what they were, and no task has run (the world
  outside is untouched and no task event is emitted).
\<close>

theorem market_closed_cycle:
  assumes "respectMarketHours (config w)"
    and "marketHours (config w) = Some mh"
    and "isMarketOpen mh (clock w (reads w)) = Some status"
    and "\<not> isOpen status"
  shows "\<exists>w'. runTasks w = Some (Market_closed status, w') \<and> runNow w = Some (Market_closed status, w') \<and>
           (intervalId w \<noteq> None \<longrightarrow> timerTick w = Some w') \<and>
           emits w w' [\<lparr>type = event_market_closed, timestamp = clock w (reads w), data = data_status status\<rparr>] \<and>
           totalRuns (state w') = totalRuns (state w) \<and>
           consecutiveErrors (state w') = consecutiveErrors (state w) \<and>
           history (state w') = history (state w) \<and>
           env w' = env w"
  using assms
  by (simp add: runNow_def timerTick_def runTasks_unfold emits_def deliveries_def)

theorem market_closed_cycle_witness:
  "\<exists>w'. runTasks (registerTask (newScheduler demo_config (\<lambda>n. before_open) quiet_handlers (0::nat)) demo_task_A)
           = Some (Market_closed \<lparr>isOpen = False, currentTime = Date 1735804800000,
                     closedReason = Some ''Before market open (opens at 09:30)'',
                     nextOpenTime = Some (Date 1735896600000), nextCloseTime = None\<rparr>, w')
      \<and> totalRuns (state w') = 0 \<and> history (state w') = [] \<and> env w' = 0"
proof -
  let ?w = "registerTask (newScheduler demo_config (\<lambda>n. before_open) quiet_handlers (0::nat)) demo_task_A"
  have c: "config ?w = demo_config" "clock ?w = (\<lambda>n. before_open)"
    "totalRuns (state ?w) = 0" "history (state ?w) = []" "env ?w = 0"
    by (simp_all add: registerTask_def newScheduler_def new_Date_def Let_def)
  have 1: "respectMarketHours (config ?w)" and 2: "marketHours (config ?w) = Some getUSMarketHoursConfig"
    unfolding c by (simp_all add: demo_config_def)
  have 3: "isMarketOpen getUSMarketHoursConfig (clock ?w (reads ?w)) =
     Some \<lparr>isOpen = False, currentTime = Date 1735804800000,
           closedReason = Some ''Before market open (opens at 09:30)'',
           nextOpenTime = Some (Date 1735896600000), nextCloseTime = None\<rparr>"
    unfolding c by (simp add: isMarketOpen_before_open)
  from market_closed_cycle[OF 1 2 3] c show ?thesis by auto
qed

text \<open>
  Claim C5, at the input where the code departs from it. The claim: whatever a task
  throws, \<open>executeTask\<close> returns a failure result with the string of the thrown value,
  and \<open>runNow\<close> resolves. The task here throws a \<open>Symbol\<close>. \<open>String(error)\<close> gives
  \<open>Symbol(boom)\<close>, but the template literal of the line written to the console throws a
  \<open>TypeError\<close> inside the \<open>catch\<close> block: \<open>executeTask\<close> is rejected with it before
  \<open>task_error\<close> is emitted, and so are \<open>runTasks\<close> and \<open>runNow\<close>. The body has run, and
  the failure is nowhere: not in the history, not in \<open>totalRuns\<close>, not in
  \<open>consecutiveErrors\<close>. (\<open>convertible_failure_is_absorbed\<close> above shows that the claim
  holds of every thrown value both of whose conversions give a string: an \<open>Error\<close>, a
  string, \<open>undefined\<close>, \<open>null\<close>.)
\<close>

theorem thrown_symbol_rejects_runNow:
  "execute symbol_task (env symbol_scheduler) = Some (Rejected (Symbol_value ''boom''), 1, []) \<and>
   String_thrown (Symbol_value ''boom'') = Inr ''Symbol(boom)'' \<and>
   (\<exists>w'. executeTask symbol_scheduler symbol_task =
        Some (Inl (Error_value ''TypeError'' ''Cannot convert a Symbol value to a string''), w') \<and>
      filter (\<lambda>ev. type ev = event_task_error) (emitted w') = []) \<and>
   (\<exists>w'. runNow symbol_scheduler =
        Some (Cycle_rejected (Error_value ''TypeError'' ''Cannot convert a Symbol value to a string''), w') \<and>
      env w' = 1 \<and> totalRuns (state w') = 0 \<and> consecutiveErrors (state w') = 0 \<and>
      history (state w') = [] \<and>
      map type (emitted w') = [event_task_start, event_task_start])"
  by (simp add: symbol_scheduler_def symbol_task_def demo_config_def scheduler_defs
      isMarketOpen_during_session[unfolded during_session_def] during_session_def)






text \<open>
  Claim C8. A cycle that comes to the state update sets \<open>consecutiveErrors\<close> to 0 when
  every result of the cycle is a success (also when there is no result), and adds 1 to it
  otherwise. A cycle that ends before (market closed, no enabled task, rejected) leaves
  it as it is, and so does every other operation; \<open>start\<close>, the timer tick and \<open>runNow\<close>
  change it only through the cycle they run (after which \<open>start\<close> may arm the timer).
\<close>

theorem consecutiveErrors_only_changed_by_cycles:
  "(runTasks w = Some (Completed results, w') \<longrightarrow>
      consecutiveErrors (state w') =
        (if list_all success results then 0 else consecutiveErrors (state w) + 1)) \<and>
   (runTasks w = Some (Market_closed status, w') \<longrightarrow>
      consecutiveErrors (state w') = consecutiveErrors (state w)) \<and>
   (runTasks w = Some (No_enabled_tasks, w') \<longrightarrow>
      consecutiveErrors (state w') = consecutiveErrors (state w)) \<and>
   (runTasks w = Some (Cycle_rejected err, w') \<longrightarrow>
      consecutiveErrors (state w') = consecutiveErrors (state w)) \<and>
   (perform oper w = Some w' \<and> oper \<noteq> Op_start \<and> oper \<noteq> Op_timerTick \<and> oper \<noteq> Op_runNow \<longrightarrow>
      consecutiveErrors (state w') = consecutiveErrors (state w)) \<and>
   (perform oper w = Some w' \<and> (oper = Op_start \<or> oper = Op_timerTick \<or> oper = Op_runNow) \<longrightarrow>
      consecutiveErrors (state w') = consecutiveErrors (state w) \<or>
      (\<exists>w0 c w1. consecutiveErrors (state w0) = consecutiveErrors (state w) \<and>
         runTasks w0 = Some (c, w1) \<and> (w' = w1 \<or> (\<exists>ms. w' = w1\<lparr>intervalId := Some ms\<rparr>))))"
proof (intro conjI impI)
  assume "runTasks w = Some (Completed results, w')"
  from runTasks_counters[OF this]
  show "consecutiveErrors (state w') = (if list_all success results then 0 else consecutiveErrors (state w) + 1)"
    by simp
next
  assume "runTasks w = Some (Market_closed status, w')"
  from runTasks_counters[OF this] show "consecutiveErrors (state w') = consecutiveErrors (state w)" by simp
next
  assume "runTasks w = Some (No_enabled_tasks, w')"
  from runTasks_counters[OF this] show "consecutiveErrors (state w') = consecutiveErrors (state w)" by simp
next
  assume "runTasks w = Some (Cycle_rejected err, w')"
  from runTasks_counters[OF this] show "consecutiveErrors (state w') = consecutiveErrors (state w)" by simp
next
  assume "perform oper w = Some w' \<and> oper \<noteq> Op_start \<and> oper \<noteq> Op_timerTick \<and> oper \<noteq> Op_runNow"
  then show "consecutiveErrors (state w') = consecutiveErrors (state w)"
    using perform_other_consecutiveErrors by blast
next
  assume a: "perform oper w = Some w' \<and> (oper = Op_start \<or> oper = Op_timerTick \<or> oper = Op_runNow)"
  then consider (s) "start w = Some w'" | (t) "timerTick w = Some w'" | (r) "map_option snd (runNow w) = Some w'"
    by auto
  then show "consecutiveErrors (state w') = consecutiveErrors (state w) \<or>
      (\<exists>w0 c w1. consecutiveErrors (state w0) = consecutiveErrors (state w) \<and>
         runTasks w0 = Some (c, w1) \<and> (w' = w1 \<or> (\<exists>ms. w' = w1\<lparr>intervalId := Some ms\<rparr>)))"
  proof cases
    case s
    from start_cases[OF s] consider "w' = w"
      | w0 ms where "state w0 = (state w)\<lparr>isRunning := True\<rparr>" "w' = w0\<lparr>intervalId := Some ms\<rparr>"
      | w0 ms c where "state w0 = (state w)\<lparr>isRunning := True\<rparr>"
          "runTasks (w0\<lparr>intervalId := Some ms\<rparr>) = Some (c, w')"
      | w0 ms c w1 where "state w0 = (state w)\<lparr>isRunning := True\<rparr>"
          "runTasks w0 = Some (c, w1)" "w' = w1\<lparr>intervalId := Some ms\<rparr>"
      by blast
    then show ?thesis
    proof cases
      case 1
      then show ?thesis by simp
    next
      case 2
      then show ?thesis by simp
    next
      case 3
      from 3(1) have "consecutiveErrors (state (w0\<lparr>intervalId := Some ms\<rparr>)) = consecutiveErrors (state w)"
        by simp
      with 3(2) show ?thesis by blast
    next
      case 4
      from 4(1) have "consecutiveErrors (state w0) = consecutiveErrors (state w)" by simp
      with 4(2,3) show ?thesis by blast
    qed
  next
    case t
    then show ?thesis by (auto simp: timerTick_def split: if_splits)
  next
    case r
    then show ?thesis by (auto simp: runNow_def)
  qed
qed

theorem consecutiveErrors_only_changed_by_cycles_witness:
  "\<exists>results w'.
      runTasks demo_scheduler = Some (Completed results, w') \<and> list_all success results \<and>
      consecutiveErrors (state w') = 0 \<and>
      perform Op_clearHistory demo_scheduler = Some (clearHistory demo_scheduler) \<and>
      consecutiveErrors (state (clearHistory demo_scheduler)) = consecutiveErrors (state demo_scheduler)"
proof -
  from demo_cycle obtain rs w' where
    r: "runTasks demo_scheduler = Some (Completed rs, w')" and s: "list_all success rs"
    by (elim exE conjE)
  have p: "perform Op_clearHistory demo_scheduler = Some (clearHistory demo_scheduler)" by simp
  from consecutiveErrors_only_changed_by_cycles[where w = demo_scheduler and results = rs and w' = w']
    r s have 1: "consecutiveErrors (state w') = 0" by simp
  from consecutiveErrors_only_changed_by_cycles[where w = demo_scheduler
      and w' = "clearHistory demo_scheduler" and oper = Op_clearHistory]
    p have 2: "consecutiveErrors (state (clearHistory demo_scheduler)) = consecutiveErrors (state demo_scheduler)"
    by simp
  from r s 1 p 2 show ?thesis by (intro exI[of _ rs] exI[of _ w']) simp
qed

text \<open>
  Claim C9. For each of the three feature flags, with the task it stands for registered:
  \<open>setFeatureEnabled(flag, false)\<close> clears the flag in the config and disables the task,
  which stays in the registry but is not among the tasks the next cycle runs;
  \<open>setFeatureEnabled(flag, true)\<close> after it sets the flag, and the task is again among
  the tasks a cycle runs, with the registry untouched but for the task's \<open>enabled\<close> and no
  registration event emitted. If the task was enabled before, the scheduler is exactly
  what it was.
\<close>

theorem feature_toggle_disables_and_restores:
  assumes registered: "\<exists>t\<in>set (tasks (scheduler orch)). id' t = taskMap f"
  shows "getFeature (orchestratorConfig (setFeatureEnabled orch f False)) f = False \<and>
         map id' (tasks (scheduler (setFeatureEnabled orch f False))) = map id' (tasks (scheduler orch)) \<and>
         taskMap f \<notin> id' ` set (enabledTasks (scheduler (setFeatureEnabled orch f False))) \<and>
         (\<forall>results w'. runTasks (scheduler (setFeatureEnabled orch f False)) = Some (Completed results, w')
            \<longrightarrow> taskMap f \<notin> set (map taskId results)) \<and>
         getFeature (orchestratorConfig (setFeatureEnabled (setFeatureEnabled orch f False) f True)) f = True \<and>
         tasks (scheduler (setFeatureEnabled (setFeatureEnabled orch f False) f True)) =
           map (\<lambda>t. if id' t = taskMap f then t\<lparr>enabled := True\<rparr> else t) (tasks (scheduler orch)) \<and>
         emitted (scheduler (setFeatureEnabled (setFeatureEnabled orch f False) f True)) =
           emitted (scheduler orch) \<and>
         taskMap f \<in> id' ` set (enabledTasks (scheduler (setFeatureEnabled (setFeatureEnabled orch f False) f True))) \<and>
         ((\<forall>t\<in>set (tasks (scheduler orch)). id' t = taskMap f \<longrightarrow> enabled t) \<longrightarrow>
            scheduler (setFeatureEnabled (setFeatureEnabled orch f False) f True) = scheduler orch)"
proof -
  let ?k = "taskMap f"
  let ?off = "setFeatureEnabled orch f False"
  let ?again = "setFeatureEnabled ?off f True"
  have so: "scheduler ?off = disableTask (scheduler orch) ?k"
    by (simp add: setFeatureEnabled_def Let_def)
  have sb: "scheduler ?again = enableTask (disableTask (scheduler orch) ?k) ?k"
    by (simp add: setFeatureEnabled_def Let_def)
  have 1: "getFeature (orchestratorConfig ?off) f = False"
    by (cases f) (simp_all add: setFeatureEnabled_def Let_def getFeature_def setFeature_def)
  have 2: "map id' (tasks (scheduler ?off)) = map id' (tasks (scheduler orch))"
    unfolding so by (simp add: disableTask_def comp_def)
  have 3: "?k \<notin> id' ` set (enabledTasks (scheduler ?off))"
    unfolding so by (auto simp: enabledTasks_def set_Array_sort disableTask_def)
  have 4: "?k \<notin> set (map taskId results)" if "runTasks (scheduler ?off) = Some (Completed results, w')"
    for results w'
  proof -
    from runTasks_Completed[OF that] obtain he w1 where
      ex: "executeTasks (cycleStart (scheduler ?off)) (enabledTasks (scheduler ?off)) [] False =
             Some (Inr (results, he), w1)"
      by blast
    from executeTasks_results[OF ex] obtain executed where
      e: "subseq executed (enabledTasks (scheduler ?off))" "map taskId results = map id' executed" by auto
    from subseq_set[OF e(1)] 3 have "?k \<notin> id' ` set executed" by blast
    with e(2) show ?thesis by simp
  qed
  have 5: "getFeature (orchestratorConfig ?again) f = True"
    by (cases f) (simp_all add: setFeatureEnabled_def Let_def getFeature_def setFeature_def)
  have 6: "tasks (scheduler ?again) =
           map (\<lambda>t. if id' t = ?k then t\<lparr>enabled := True\<rparr> else t) (tasks (scheduler orch))"
    unfolding sb by (rule enableTask_disableTask)
  have 7: "emitted (scheduler ?again) = emitted (scheduler orch)"
    unfolding sb by (simp add: enableTask_def disableTask_def)
  from registered obtain t where t: "t \<in> set (tasks (scheduler orch))" "id' t = ?k" by blast
  then have "t\<lparr>enabled := True\<rparr> \<in> set (tasks (scheduler ?again))"
    unfolding 6 by force
  then have "t\<lparr>enabled := True\<rparr> \<in> set (enabledTasks (scheduler ?again))"
    by (simp add: enabledTasks_def set_Array_sort)
  with t(2) have 8: "?k \<in> id' ` set (enabledTasks (scheduler ?again))"
    by force
  have 9: "(\<forall>t\<in>set (tasks (scheduler orch)). id' t = ?k \<longrightarrow> enabled t) \<longrightarrow>
            scheduler ?again = scheduler orch"
    unfolding sb using enableTask_disableTask_restores by blast
  from 1 2 3 4 5 6 7 8 9 show ?thesis by blast
qed

theorem feature_toggle_disables_and_restores_witness:
  "(\<exists>t\<in>set (tasks (scheduler (createDefaultOrchestrator True (\<lambda>n. during_session) quiet_handlers (0::nat)))).
       id' t = taskMap key_enableEntryScanning) \<and>
   map id' (tasks (scheduler (setFeatureEnabled
       (createDefaultOrchestrator True (\<lambda>n. during_session) quiet_handlers (0::nat))
       key_enableEntryScanning False))) = [''position-monitor'', ''entry-scanner'', ''roll-manager''] \<and>
   ''entry-scanner'' \<notin> id' ` set (enabledTasks (scheduler (setFeatureEnabled
       (createDefaultOrchestrator True (\<lambda>n. during_session) quiet_handlers (0::nat))
       key_enableEntryScanning False))) \<and>
   scheduler (setFeatureEnabled (setFeatureEnabled
       (createDefaultOrchestrator True (\<lambda>n. during_session) quiet_handlers (0::nat))
       key_enableEntryScanning False)
       key_enableEntryScanning True) =
     scheduler (createDefaultOrchestrator True (\<lambda>n. during_session) quiet_handlers (0::nat))"
proof -
  let ?orch = "createDefaultOrchestrator True (\<lambda>n. during_session) quiet_handlers (0::nat)"
  have ts: "tasks (scheduler ?orch) =
     [\<lparr>id' = ''position-monitor'', name = ''Monitor Positions for Exit/Roll'',
       execute = monitorPositions, enabled = True, priority = Some 100,
       requiresMarketOpen = Some True\<rparr>,
      \<lparr>id' = ''entry-scanner'', name = ''Scan for Entry Opportunities'',
       execute = scanForEntries, enabled = True, priority = Some 50,
       requiresMarketOpen = Some True\<rparr>,
      \<lparr>id' = ''roll-manager'', name = ''Check Positions for Rolling'',
       execute = manageRolls, enabled = True, priority = Some 75,
       requiresMarketOpen = Some True\<rparr>]"
    by (simp add: createDefaultOrchestrator_def newTradingOrchestrator_def registerDefaultTasks_def
        registerTask_def newScheduler_def new_Date_def emit_no_handlers Let_def)
  have r: "\<exists>t\<in>set (tasks (scheduler ?orch)). id' t = taskMap key_enableEntryScanning"
    unfolding ts by (simp add: taskMap_def)
  have en: "\<forall>t\<in>set (tasks (scheduler ?orch)). id' t = taskMap key_enableEntryScanning \<longrightarrow> enabled t"
    unfolding ts by (simp add: taskMap_def)
  from feature_toggle_disables_and_restores[OF r] r en show ?thesis
    by (simp add: ts taskMap_def)
qed

text \<open>
  Claim C10. \<open>registerTask\<close> emits a \<open>task_start\<close> event when the task is registered,
  with the task's id as its only payload (the event of an execution carries the id and
  the name). The task has not run: the world outside and the state are what they were.
\<close>

theorem registerTask_emits_task_start:
  "emits w (registerTask w task)
     [\<lparr>type = event_task_start, timestamp = clock w (reads w), data = data_taskId (id' task)\<rparr>] \<and>
   env (registerTask w task) = env w \<and>
   state (registerTask w task) = state w \<and>
   data_taskId (id' task) \<noteq> data_taskId_taskName (id' task) (name task)"
  by (simp add: emits_def deliveries_def registerTask_def new_Date_def Let_def)

end
